theory Spec2Isabelle
  imports Complex_Main "HOL-Library.Log_Nat"
begin

section \<open>Python values used by signal\_bot.py\<close>

text \<open>
  The exceptions that the modelled statements can raise. A function that may raise
  returns \<open>pyerr + 'a\<close>, with \<open>Inl\<close> for the exception.
\<close>

datatype pyerr =
    ValueError | TypeError | AttributeError | KeyError | OverflowError
  | StatisticsError | JSONDecodeError | TimeoutError | ConnectionClosed

definition then_do :: "pyerr + 'a \<Rightarrow> ('a \<Rightarrow> pyerr + 'b) \<Rightarrow> pyerr + 'b" where
  "then_do m f = (case m of Inl e \<Rightarrow> Inl e | Inr x \<Rightarrow> f x)"

subsection \<open>Text: \<open>int(str)\<close>\<close>

text \<open>
  Strings are byte strings. \<open>int\<close> and \<open>float\<close> strip the ASCII white space
  (tab, line feed, vertical tab, form feed, carriage return, space), accept one sign and
  read decimal digits, with single underscores allowed between two digits. The interpreter
  also accepts white space and decimal digits outside ASCII and limits the number of
  digits; neither is modelled.
\<close>

definition is_space :: "char \<Rightarrow> bool" where
  "is_space c = (c \<in> set [CHR 0x09, CHR 0x0A, CHR 0x0B, CHR 0x0C, CHR 0x0D, CHR 0x20])"

definition is_digit :: "char \<Rightarrow> bool" where
  "is_digit c = (48 \<le> (of_char c :: nat) \<and> (of_char c :: nat) \<le> 57)"

definition digit_val :: "char \<Rightarrow> int" where
  "digit_val c = int (of_char c) - 48"

definition strip :: "string \<Rightarrow> string" where
  "strip s = rev (dropWhile is_space (rev (dropWhile is_space s)))"

text \<open>
  \<open>digits_acc after acc n cs\<close> reads a digit part: \<open>after\<close> says that the previous
  character was a digit, \<open>acc\<close> is the value read so far and \<open>n\<close> the number of digits.
\<close>

fun digits_acc :: "bool \<Rightarrow> int \<Rightarrow> nat \<Rightarrow> string \<Rightarrow> (int \<times> nat) option" where
  "digits_acc after acc n [] = (if after then Some (acc, n) else None)"
| "digits_acc after acc n (c # cs) =
     (if is_digit c then digits_acc True (acc * 10 + digit_val c) (Suc n) cs
      else if c = CHR ''_'' \<and> after then digits_acc False acc n cs
      else None)"

definition digitpart :: "string \<Rightarrow> (int \<times> nat) option" where
  "digitpart cs = digits_acc False 0 0 cs"

definition split_sign :: "string \<Rightarrow> int \<times> string" where
  "split_sign s =
     (case s of
        [] \<Rightarrow> (1, [])
      | c # cs \<Rightarrow> if c = CHR ''-'' then (-1, cs) else if c = CHR ''+'' then (1, cs) else (1, s))"

definition py_int :: "string \<Rightarrow> pyerr + int" where
  "py_int s =
     (case split_sign (strip s) of
        (sg, body) \<Rightarrow>
          (case digitpart body of
             None \<Rightarrow> Inl ValueError
           | Some (v, n) \<Rightarrow> Inr (sg * v)))"

subsection \<open>Floats\<close>

text \<open>
  A Python float is an IEEE 754 binary64 value: a finite value (a rational), an infinity or
  a NaN. The two zeros are not told apart. \<open>fl\<close> rounds an exact rational to the nearest
  binary64 value, ties to the even significand, and overflows to an infinity.
\<close>

datatype pyfloat = Fin rat | PosInf | NegInf | NaN

definition round_half_even :: "rat \<Rightarrow> int" where
  "round_half_even x =
     (let n = \<lfloor>x\<rfloor>; r = x - of_int n in
      if r < 1 / 2 then n
      else if 1 / 2 < r then n + 1
      else if even n then n else n + 1)"

text \<open>\<open>ilog2 x\<close> is the integer \<open>e\<close> with \<open>2 ^ e \<le> x < 2 ^ (e + 1)\<close>, for \<open>0 < x\<close>.\<close>

definition ilog2 :: "rat \<Rightarrow> int" where
  "ilog2 x = (if 1 \<le> x then bitlen \<lfloor>x\<rfloor> - 1 else - bitlen (\<lceil>1 / x\<rceil> - 1))"

text \<open>
  The spacing of the binary64 values around \<open>x\<close>: 53 significant bits, and the fixed
  spacing \<open>2 ^ -1074\<close> of the subnormal range below \<open>2 ^ -1022\<close>.
\<close>

definition ulp_of :: "rat \<Rightarrow> rat" where
  "ulp_of x = 2 powi (max (ilog2 \<bar>x\<bar>) (- 1022) - 52)"

definition round_to_grid :: "rat \<Rightarrow> rat" where
  "round_to_grid x =
     (if x = 0 then 0 else of_int (round_half_even (x / ulp_of x)) * ulp_of x)"

text \<open>A rounded magnitude of \<open>2 ^ 1024\<close> or more overflows.\<close>

definition fl :: "rat \<Rightarrow> pyfloat" where
  "fl x =
     (let y = round_to_grid x in
      if y = 0 then Fin 0
      else if 1024 \<le> ilog2 \<bar>y\<bar> then (if 0 < y then PosInf else NegInf)
      else Fin y)"

definition is_double :: "rat \<Rightarrow> bool" where
  "is_double x = (fl x = Fin x)"

fun is_fin :: "pyfloat \<Rightarrow> bool" where
  "is_fin (Fin x) = True"
| "is_fin _ = False"

fun fin_val :: "pyfloat \<Rightarrow> rat" where
  "fin_val (Fin x) = x"
| "fin_val _ = 0"

fun fadd :: "pyfloat \<Rightarrow> pyfloat \<Rightarrow> pyfloat" where
  "fadd NaN b = NaN"
| "fadd a NaN = NaN"
| "fadd (Fin x) (Fin y) = fl (x + y)"
| "fadd (Fin x) b = b"
| "fadd a (Fin y) = a"
| "fadd PosInf PosInf = PosInf"
| "fadd NegInf NegInf = NegInf"
| "fadd PosInf NegInf = NaN"
| "fadd NegInf PosInf = NaN"

fun fneg :: "pyfloat \<Rightarrow> pyfloat" where
  "fneg (Fin x) = Fin (- x)"
| "fneg PosInf = NegInf"
| "fneg NegInf = PosInf"
| "fneg NaN = NaN"

definition fsub :: "pyfloat \<Rightarrow> pyfloat \<Rightarrow> pyfloat" where
  "fsub a b = fadd a (fneg b)"

text \<open>Division of a float by a positive finite number \<open>d\<close> (\<open>/ 2.0\<close>, \<open>total / n\<close>).\<close>

fun fdiv_pos :: "pyfloat \<Rightarrow> rat \<Rightarrow> pyfloat" where
  "fdiv_pos (Fin x) d = fl (x / d)"
| "fdiv_pos a d = a"

fun flt :: "pyfloat \<Rightarrow> pyfloat \<Rightarrow> bool" where
  "flt NaN b = False"
| "flt a NaN = False"
| "flt (Fin x) (Fin y) = (x < y)"
| "flt (Fin x) PosInf = True"
| "flt NegInf (Fin y) = True"
| "flt NegInf PosInf = True"
| "flt a b = False"

definition fgt :: "pyfloat \<Rightarrow> pyfloat \<Rightarrow> bool" where
  "fgt a b = flt b a"

text \<open>
  \<open>statistics.mean\<close>: an empty list raises \<open>StatisticsError\<close>; finite data are summed
  exactly as fractions and the quotient is rounded once; when an infinity or a NaN is
  present the result is the float sum of those values, divided by the count.
\<close>

definition py_mean :: "pyfloat list \<Rightarrow> pyerr + pyfloat" where
  "py_mean xs =
     (if xs = [] then Inl StatisticsError
      else if list_all is_fin xs then
        (case fl (sum_list (map fin_val xs) / of_nat (length xs)) of
           Fin m \<Rightarrow> Inr (Fin m)
         | _ \<Rightarrow> Inl OverflowError)
      else Inr (fdiv_pos (foldl fadd (Fin 0) (filter (\<lambda>x. \<not> is_fin x) xs))
                  (of_nat (length xs))))"

subsection \<open>\<open>float(str)\<close>\<close>

definition lower :: "char \<Rightarrow> char" where
  "lower c =
     (if 65 \<le> (of_char c :: nat) \<and> (of_char c :: nat) \<le> 90
      then char_of (of_char c + (32 :: nat)) else c)"

definition is_exp_mark :: "char \<Rightarrow> bool" where
  "is_exp_mark c = (c = CHR ''e'' \<or> c = CHR ''E'')"

text \<open>The mantissa \<open>[digitpart] "." digitpart | digitpart ["."]\<close>, as an exact rational.\<close>

definition mantissa :: "string \<Rightarrow> rat option" where
  "mantissa m =
     (let ip = takeWhile (\<lambda>c. c \<noteq> CHR ''.'') m; rest = dropWhile (\<lambda>c. c \<noteq> CHR ''.'') m in
      case rest of
        [] \<Rightarrow> map_option (\<lambda>(v, n). of_int v) (digitpart ip)
      | dot # fp \<Rightarrow>
          if ip = [] \<and> fp = [] then None
          else
            (case (if ip = [] then Some (0, 0) else digitpart ip) of
               None \<Rightarrow> None
             | Some (iv, k) \<Rightarrow>
                 (case (if fp = [] then Some (0, 0) else digitpart fp) of
                    None \<Rightarrow> None
                  | Some (fv, n) \<Rightarrow> Some (of_int iv + of_int fv / 10 ^ n))))"

text \<open>The exponent part: empty, or an exponent mark, an optional sign and a digit part.\<close>

definition exponent :: "string \<Rightarrow> int option" where
  "exponent ex =
     (case ex of
        [] \<Rightarrow> Some 0
      | mark # r \<Rightarrow>
          (case split_sign r of
             (sg, body) \<Rightarrow> map_option (\<lambda>(v, n). sg * v) (digitpart body)))"

definition float_of_text :: "string \<Rightarrow> pyfloat option" where
  "float_of_text s =
     (case split_sign (strip s) of
        (sg, body) \<Rightarrow>
          if map lower body = ''inf'' \<or> map lower body = ''infinity''
          then Some (if sg < 0 then NegInf else PosInf)
          else if map lower body = ''nan'' then Some NaN
          else
            (case mantissa (takeWhile (\<lambda>c. \<not> is_exp_mark c) body) of
               None \<Rightarrow> None
             | Some m \<Rightarrow>
                 (case exponent (dropWhile (\<lambda>c. \<not> is_exp_mark c) body) of
                    None \<Rightarrow> None
                  | Some e \<Rightarrow> Some (fl (of_int sg * m * 10 powi e)))))"

subsection \<open>Decoded JSON\<close>

text \<open>
  What \<open>json.loads\<close> returns. An object is the list of its items, keys distinct.
  \<open>JNull\<close> is Python's \<open>None\<close>.
\<close>

datatype json =
    JNull | JBool bool | JInt int | JFloat pyfloat | JStr string
  | JList "json list" | JDict "(string \<times> json) list"

fun truthy :: "json \<Rightarrow> bool" where
  "truthy JNull = False"
| "truthy (JBool b) = b"
| "truthy (JInt i) = (i \<noteq> 0)"
| "truthy (JFloat f) = (f \<noteq> Fin 0)"
| "truthy (JStr s) = (s \<noteq> [])"
| "truthy (JList xs) = (xs \<noteq> [])"
| "truthy (JDict kvs) = (kvs \<noteq> [])"

fun hashable :: "json \<Rightarrow> bool" where
  "hashable (JList xs) = False"
| "hashable (JDict kvs) = False"
| "hashable v = True"

text \<open>\<open>float(int)\<close> rounds to the nearest float and raises when the integer is too large.\<close>

definition float_of_int :: "int \<Rightarrow> pyerr + pyfloat" where
  "float_of_int i = (case fl (of_int i) of Fin x \<Rightarrow> Inr (Fin x) | _ \<Rightarrow> Inl OverflowError)"

fun py_float :: "json \<Rightarrow> pyerr + pyfloat" where
  "py_float JNull = Inl TypeError"
| "py_float (JBool b) = Inr (Fin (if b then 1 else 0))"
| "py_float (JInt i) = float_of_int i"
| "py_float (JFloat f) = Inr f"
| "py_float (JStr s) = (case float_of_text s of None \<Rightarrow> Inl ValueError | Some f \<Rightarrow> Inr f)"
| "py_float (JList xs) = Inl TypeError"
| "py_float (JDict kvs) = Inl TypeError"

section \<open>Durations\<close>

definition endswith :: "string \<Rightarrow> char \<Rightarrow> bool" where
  "endswith s c = (s \<noteq> [] \<and> last s = c)"

definition parse_duration :: "string \<Rightarrow> pyerr + int" where
  "parse_duration s =
     (if endswith s CHR ''m'' then then_do (py_int (butlast s)) (\<lambda>n. Inr (n * 60))
      else if endswith s CHR ''s'' then then_do (py_int (butlast s)) (\<lambda>n. Inr n)
      else if endswith s CHR ''h'' then then_do (py_int (butlast s)) (\<lambda>n. Inr (n * 3600))
      else Inl ValueError)"

section \<open>Market data manager\<close>

text \<open>
  \<open>MarketData.ticks\<close> maps a symbol to a \<open>deque(maxlen=MAX_POINTS)\<close> of
  \<open>(timestamp, price)\<close> pairs, oldest first. The timestamp is stored as the caller
  gave it; the price is stored as a float. Keys are compared structurally (Python also
  takes numbers of equal value, such as \<open>1\<close>, \<open>1.0\<close> and \<open>True\<close>, for one key).
  Clock readings are parameters named \<open>now\<close>: the value of the float that
  \<open>time.time()\<close> returns.
\<close>

type_synonym tick = "json \<times> pyfloat"
type_synonym market = "json \<Rightarrow> tick list option"

definition MAX_POINTS :: nat where
  "MAX_POINTS = 500"

definition MarketData :: market where
  "MarketData = (\<lambda>symbol. None)"

definition deque_append :: "nat \<Rightarrow> 'a list \<Rightarrow> 'a \<Rightarrow> 'a list" where
  "deque_append maxlen d x = (let d' = d @ [x] in if maxlen < length d' then tl d' else d')"

definition ensure_symbol :: "market \<Rightarrow> json \<Rightarrow> pyerr + market" where
  "ensure_symbol M symbol =
     (if \<not> hashable symbol then Inl TypeError
      else if M symbol = None then Inr (M(symbol \<mapsto> []))
      else Inr M)"

text \<open>
  \<open>add_tick\<close> returns the outcome and the store as the call leaves it: an exception
  raised by \<open>float(price)\<close> comes after \<open>ensure_symbol\<close> has run.
\<close>

definition add_tick :: "market \<Rightarrow> json \<Rightarrow> json \<Rightarrow> json \<Rightarrow> rat \<Rightarrow> (pyerr + unit) \<times> market" where
  "add_tick M symbol price ts now =
     (case ensure_symbol M symbol of
        Inl e \<Rightarrow> (Inl e, M)
      | Inr M1 \<Rightarrow>
          (let ts' = (if ts = JNull then JFloat (Fin now) else ts) in
           case M1 symbol of
             None \<Rightarrow> (Inl KeyError, M1)
           | Some d \<Rightarrow>
               (case py_float price of
                  Inl e \<Rightarrow> (Inl e, M1)
                | Inr p \<Rightarrow> (Inr (), M1(symbol \<mapsto> deque_append MAX_POINTS d (ts', p))))))"

text \<open>\<open>a <= b\<close> on floats: false as soon as one side is a NaN.\<close>

fun fle :: "pyfloat \<Rightarrow> pyfloat \<Rightarrow> bool" where
  "fle NaN b = False"
| "fle a NaN = False"
| "fle (Fin x) (Fin y) = (x \<le> y)"
| "fle NegInf b = True"
| "fle a PosInf = True"
| "fle a b = False"

text \<open>
  \<open>t >= cutoff\<close> for a stored timestamp \<open>t\<close> and the float \<open>cutoff\<close>: a float
  compares as a float, an integer or a boolean by its exact value, anything else raises.
\<close>

fun py_ge :: "json \<Rightarrow> pyfloat \<Rightarrow> pyerr + bool" where
  "py_ge (JInt i) c = Inr (fle c (Fin (of_int i)))"
| "py_ge (JBool b) c = Inr (fle c (Fin (if b then 1 else 0)))"
| "py_ge (JFloat f) c = Inr (fle c f)"
| "py_ge t c = Inl TypeError"

fun prices_from :: "pyfloat \<Rightarrow> tick list \<Rightarrow> pyerr + pyfloat list" where
  "prices_from cutoff [] = Inr []"
| "prices_from cutoff ((t, p) # d) =
     then_do (py_ge t cutoff) (\<lambda>keep.
       then_do (prices_from cutoff d) (\<lambda>ps. Inr (if keep then p # ps else ps)))"

text \<open>
  \<open>cutoff = time.time() - since_seconds\<close> is a float subtraction: the integer
  \<open>since_seconds\<close> is converted to a float first, which raises when it is too large,
  and the difference is rounded. It is computed after \<open>ensure_symbol\<close> has run.
\<close>

definition get_prices_since :: "market \<Rightarrow> json \<Rightarrow> int \<Rightarrow> rat \<Rightarrow> (pyerr + pyfloat list) \<times> market" where
  "get_prices_since M symbol since_seconds now =
     (case ensure_symbol M symbol of
        Inl e \<Rightarrow> (Inl e, M)
      | Inr M1 \<Rightarrow>
          (case float_of_int since_seconds of
             Inl e \<Rightarrow> (Inl e, M1)
           | Inr w \<Rightarrow>
               (let cutoff = fsub (Fin now) w in
                case M1 symbol of
                  None \<Rightarrow> (Inl KeyError, M1)
                | Some d \<Rightarrow> (prices_from cutoff d, M1))))"

section \<open>Signal strategy\<close>

datatype signal = BUY | SELL | HOLD

text \<open>
  The second component of the result. The source formats the three numbers into a
  string; the model keeps which of the four texts it is and the numbers.
\<close>

datatype info =
    NotEnoughData
  | FastAbove pyfloat pyfloat pyfloat
  | FastBelow pyfloat pyfloat pyfloat
  | Neutral pyfloat pyfloat pyfloat

text \<open>\<open>xs[i:]\<close> for a Python list and an integer \<open>i\<close>.\<close>

definition slice_from :: "'a list \<Rightarrow> int \<Rightarrow> 'a list" where
  "slice_from xs i =
     (if i < 0 then drop (nat (int (length xs) + i)) xs else drop (nat i) xs)"

text \<open>\<open>xs[-k]\<close> for \<open>1 \<le> k \<le> len(xs)\<close>; the caller has checked the length.\<close>

definition from_end :: "'a list \<Rightarrow> nat \<Rightarrow> 'a" where
  "from_end xs k = xs ! (length xs - k)"

definition compute_signal :: "pyfloat list \<Rightarrow> int \<Rightarrow> int \<Rightarrow> pyerr + signal \<times> info" where
  "compute_signal prices fast_len slow_len =
     (if int (length prices) < max fast_len slow_len \<or> length prices < 3
      then Inr (HOLD, NotEnoughData)
      else
        then_do (py_mean (slice_from prices (- fast_len))) (\<lambda>fast_ma.
        then_do (if slow_len \<le> int (length prices)
                 then py_mean (slice_from prices (- slow_len))
                 else py_mean prices) (\<lambda>slow_ma.
          let slope = fdiv_pos (fsub (from_end prices 1) (from_end prices 3)) 2 in
          if fgt fast_ma slow_ma \<and> fgt slope (Fin 0)
          then Inr (BUY, FastAbove fast_ma slow_ma slope)
          else if flt fast_ma slow_ma \<and> flt slope (Fin 0)
          then Inr (SELL, FastBelow fast_ma slow_ma slope)
          else Inr (HOLD, Neutral fast_ma slow_ma slope))))"

text \<open>
  The algorithm as the specification words it (section 4.2), for window lengths that are
  natural numbers: the last \<open>n\<close> prices are \<open>last_n n prices\<close>.
\<close>

definition last_n :: "nat \<Rightarrow> 'a list \<Rightarrow> 'a list" where
  "last_n n xs = drop (length xs - n) xs"


section \<open>Inbound messages\<close>

text \<open>
  A connection is modelled by what arrives on it: each event carries the time that passes
  between the start of a receive and the arrival. A text message is given by what
  \<open>json.loads\<close> makes of it, \<open>None\<close> when it is not JSON. \<open>Lost\<close> is a transport
  fault raised by the receive. When the list is empty nothing arrives any more.
  The connection is taken as established and sends succeed; the authorisation step is
  skipped, as \<open>DERIV_TOKEN\<close> is \<open>None\<close>.
\<close>

datatype inbound = Text "json option" | Lost

type_synonym event = "rat \<times> inbound"

fun contains :: "string \<Rightarrow> string \<Rightarrow> bool" where
  "contains k [] = (k = [])"
| "contains k (c # cs) = (take (length k) (c # cs) = k \<or> contains k cs)"

text \<open>\<open>key in data\<close>, \<open>data[key]\<close> and \<open>obj.get(key, default)\<close> for a string key.\<close>

fun py_in :: "string \<Rightarrow> json \<Rightarrow> pyerr + bool" where
  "py_in k (JDict kvs) = Inr (k \<in> set (map fst kvs))"
| "py_in k (JList xs) = Inr (JStr k \<in> set xs)"
| "py_in k (JStr s) = Inr (contains k s)"
| "py_in k v = Inl TypeError"

fun py_getitem :: "json \<Rightarrow> string \<Rightarrow> pyerr + json" where
  "py_getitem (JDict kvs) k = (case map_of kvs k of None \<Rightarrow> Inl KeyError | Some v \<Rightarrow> Inr v)"
| "py_getitem v k = Inl TypeError"

fun py_get :: "json \<Rightarrow> string \<Rightarrow> json \<Rightarrow> pyerr + json" where
  "py_get (JDict kvs) k dflt = Inr (case map_of kvs k of None \<Rightarrow> dflt | Some v \<Rightarrow> v)"
| "py_get v k dflt = Inl AttributeError"

section \<open>Websocket listener\<close>

text \<open>
  \<open>a or b or c\<close> yields the first truthy operand, and the last operand when none is
  truthy; later operands are evaluated only when the earlier ones are falsy.
\<close>

definition tick_symbol :: "json \<Rightarrow> json \<Rightarrow> pyerr + json" where
  "tick_symbol t data =
     then_do (py_get t ''symbol'' JNull) (\<lambda>a. if truthy a then Inr a else
     then_do (py_get t ''quote'' JNull) (\<lambda>b. if truthy b then Inr b else
     then_do (py_get data ''echo_req'' (JDict [])) (\<lambda>r. py_get r ''subscribe'' JNull)))"

definition tick_price :: "json \<Rightarrow> pyerr + json" where
  "tick_price t =
     then_do (py_get t ''quote'' JNull) (\<lambda>a. if truthy a then Inr a else
     then_do (py_get t ''price'' JNull) (\<lambda>b. if truthy b then Inr b else
     then_do (py_get t ''bid'' JNull) (\<lambda>c. if truthy c then Inr c else
     py_get t ''ask'' JNull)))"

text \<open>
  The body of the listener's loop for one received message, at clock reading \<open>now\<close>.
  \<open>listener_tick\<close> is the extraction: the arguments of \<open>add_tick\<close>, or \<open>None\<close>
  when the message is skipped.
\<close>

definition listener_tick :: "json \<Rightarrow> rat \<Rightarrow> pyerr + (json \<times> json \<times> json) option" where
  "listener_tick data now =
     then_do (py_in ''tick'' data) (\<lambda>has_tick.
       if \<not> has_tick then Inr None
       else
         then_do (py_getitem data ''tick'') (\<lambda>t.
         then_do (tick_symbol t data) (\<lambda>symbol.
         then_do (tick_price t) (\<lambda>price.
           if truthy symbol \<and> price \<noteq> JNull
           then then_do (py_get t ''epoch'' (JFloat (Fin now))) (\<lambda>ts.
                  Inr (Some (symbol, price, ts)))
           else Inr None))))"

definition on_message :: "market \<Rightarrow> json option \<Rightarrow> rat \<Rightarrow> (pyerr + unit) \<times> market" where
  "on_message M msg now =
     (case msg of
        None \<Rightarrow> (Inr (), M)
      | Some data \<Rightarrow>
          (case listener_tick data now of
             Inl e \<Rightarrow> (Inl e, M)
           | Inr None \<Rightarrow> (Inr (), M)
           | Inr (Some (symbol, price, ts)) \<Rightarrow> add_tick M symbol price ts now))"

text \<open>
  The listener over the events that arrive: \<open>Inl e\<close> when the exception \<open>e\<close> ended
  the loop, \<open>Inr ()\<close> when every event was consumed and the loop waits for the next.
\<close>

fun deriv_ws_listener :: "market \<Rightarrow> rat \<Rightarrow> event list \<Rightarrow> (pyerr + unit) \<times> market" where
  "deriv_ws_listener M now [] = (Inr (), M)"
| "deriv_ws_listener M now ((d, Lost) # evs) = (Inl ConnectionClosed, M)"
| "deriv_ws_listener M now ((d, Text msg) # evs) =
     (case on_message M msg (now + d) of
        (Inl e, M') \<Rightarrow> (Inl e, M')
      | (Inr u, M') \<Rightarrow> deriv_ws_listener M' (now + d) evs)"

section \<open>Snapshot fetch\<close>

text \<open>What the fetch does on its connection, in order.\<close>

datatype action = Send json | Close

text \<open>The body of the fetch loop after a message was received, at clock reading \<open>now\<close>.\<close>

definition fetch_tick :: "json \<Rightarrow> rat \<Rightarrow> pyerr + (json \<times> json \<times> pyfloat) option" where
  "fetch_tick data now =
     then_do (py_in ''tick'' data) (\<lambda>has_tick.
       if \<not> has_tick then Inr None
       else
         then_do (py_getitem data ''tick'') (\<lambda>t.
         then_do (py_get t ''quote'' JNull) (\<lambda>a.
         then_do (if truthy a then Inr a else py_get t ''price'' JNull) (\<lambda>price.
         then_do (py_get t ''epoch'' (JFloat (Fin now))) (\<lambda>epoch.
         then_do (py_float price) (\<lambda>p. Inr (Some (price, epoch, p))))))))"

definition fetch_message ::
  "json \<Rightarrow> market \<Rightarrow> tick list \<Rightarrow> json option \<Rightarrow> rat \<Rightarrow> (pyerr + tick list) \<times> market" where
  "fetch_message symbol M collected msg now =
     (case msg of
        None \<Rightarrow> (Inl JSONDecodeError, M)
      | Some data \<Rightarrow>
          (case fetch_tick data now of
             Inl e \<Rightarrow> (Inl e, M)
           | Inr None \<Rightarrow> (Inr collected, M)
           | Inr (Some (price, epoch, p)) \<Rightarrow>
               (case add_tick M symbol price epoch now of
                  (Inl e, M') \<Rightarrow> (Inl e, M')
                | (Inr u, M') \<Rightarrow> (Inr (collected @ [(epoch, p)]), M'))))"

text \<open>
  The \<open>while\<close> loop: \<open>start\<close> is the clock at the loop's entry, \<open>now\<close> the clock at
  this test of the condition. A receive waits \<open>duration_seconds\<close> at most; a message that
  takes that long or longer, or never comes, makes \<open>wait_for\<close> raise \<open>TimeoutError\<close>.
  The result is the outcome, the store, and the clock when the loop is left.
\<close>

fun collect ::
  "json \<Rightarrow> int \<Rightarrow> rat \<Rightarrow> tick list \<Rightarrow> market \<Rightarrow> rat \<Rightarrow> event list
     \<Rightarrow> (pyerr + tick list) \<times> market \<times> rat" where
  "collect symbol duration_seconds start collected M now [] =
     (if now - start < of_int duration_seconds
      then (Inl TimeoutError, M, now + of_int duration_seconds)
      else (Inr collected, M, now))"
| "collect symbol duration_seconds start collected M now ((d, ev) # evs) =
     (if \<not> (now - start < of_int duration_seconds) then (Inr collected, M, now)
      else if of_int duration_seconds \<le> d
      then (Inl TimeoutError, M, now + of_int duration_seconds)
      else
        (case ev of
           Lost \<Rightarrow> (Inl ConnectionClosed, M, now + d)
         | Text msg \<Rightarrow>
             (case fetch_message symbol M collected msg (now + d) of
                (Inl e, M') \<Rightarrow> (Inl e, M', now + d)
              | (Inr collected', M') \<Rightarrow>
                  collect symbol duration_seconds start collected' M' (now + d) evs)))"

definition subscribe_req :: "json \<Rightarrow> json" where
  "subscribe_req symbol = JDict [(''ticks'', symbol), (''subscribe'', JInt 1)]"

definition forget_req :: "json \<Rightarrow> json" where
  "forget_req symbol = JDict [(''forget'', subscribe_req symbol)]"

text \<open>
  The result is the outcome, the store, the clock at the end, and the actions on the
  connection. Leaving the \<open>async with\<close> block closes the connection on both paths.
\<close>

definition subscribe_and_fetch ::
  "json \<Rightarrow> int \<Rightarrow> market \<Rightarrow> rat \<Rightarrow> event list
     \<Rightarrow> (pyerr + tick list) \<times> market \<times> rat \<times> action list" where
  "subscribe_and_fetch symbol duration_seconds M now evs =
     (case collect symbol duration_seconds now [] M now evs of
        (Inl e, M', now') \<Rightarrow> (Inl e, M', now', [Send (subscribe_req symbol), Close])
      | (Inr collected, M', now') \<Rightarrow>
          (Inr collected, M', now',
           [Send (subscribe_req symbol), Send (forget_req symbol), Close]))"

section \<open>Signal command\<close>

datatype reply =
    FailedToRetrieve
  | NoRecentPrices
  | Verdict signal info pyfloat

definition format_symbol :: "(string \<times> string) list \<Rightarrow> string \<Rightarrow> string" where
  "format_symbol symbol_map user_sym =
     (case map_of symbol_map user_sym of None \<Rightarrow> user_sym | Some v \<Rightarrow> v)"

text \<open>
  The last part of \<open>handle_signal_command\<close>: the prices of the window, and the signal
  computed from them.
\<close>

definition window_signal ::
  "market \<Rightarrow> json \<Rightarrow> int \<Rightarrow> rat \<Rightarrow> (pyerr + reply) \<times> market" where
  "window_signal M deriv_sym tf_seconds now =
     (case get_prices_since M deriv_sym tf_seconds now of
        (Inl e, M') \<Rightarrow> (Inl e, M')
      | (Inr window_prices, M') \<Rightarrow>
          if window_prices = [] then (Inr NoRecentPrices, M')
          else
            (case compute_signal window_prices (max 3 (tf_seconds div 6))
                    (max 8 (tf_seconds div 2)) of
               Inl e \<Rightarrow> (Inl e, M')
             | Inr (sg, why) \<Rightarrow> (Inr (Verdict sg why (last window_prices)), M')))"

definition handle_signal_command ::
  "(string \<times> string) list \<Rightarrow> string \<Rightarrow> string \<Rightarrow> string \<Rightarrow> market \<Rightarrow> rat \<Rightarrow> event list
     \<Rightarrow> (pyerr + reply) \<times> market \<times> rat \<times> action list" where
  "handle_signal_command symbol_map user_sym timeframe expiration M now evs =
     (let deriv_sym = JStr (format_symbol symbol_map user_sym) in
      case parse_duration timeframe of
        Inl e \<Rightarrow> (Inl e, M, now, [])
      | Inr tf_seconds \<Rightarrow>
          (case parse_duration expiration of
             Inl e \<Rightarrow> (Inl e, M, now, [])
           | Inr exp_seconds \<Rightarrow>
               (let lookback = tf_seconds * 3 in
                case get_prices_since M deriv_sym lookback now of
                  (Inl e, M1) \<Rightarrow> (Inl e, M1, now, [])
                | (Inr prices, M1) \<Rightarrow>
                    if int (length prices) < max 10 tf_seconds
                    then
                      (case subscribe_and_fetch deriv_sym (min 10 (max 5 tf_seconds)) M1 now evs of
                         (Inl e, M2, now2, acts) \<Rightarrow> (Inr FailedToRetrieve, M2, now2, acts)
                       | (Inr collected, M2, now2, acts) \<Rightarrow>
                           (case get_prices_since M2 deriv_sym lookback now2 of
                              (Inl e, M3) \<Rightarrow> (Inr FailedToRetrieve, M3, now2, acts)
                            | (Inr prices', M3) \<Rightarrow>
                                (case window_signal M3 deriv_sym tf_seconds now2 of
                                   (r, M4) \<Rightarrow> (r, M4, now2, acts))))
                    else
                      (case window_signal M1 deriv_sym tf_seconds now of
                         (r, M4) \<Rightarrow> (r, M4, now, [])))))"

section \<open>Notions used to state the properties\<close>

text \<open>The history of a symbol: empty when the symbol has no entry yet.\<close>

definition history :: "market \<Rightarrow> json \<Rightarrow> tick list" where
  "history M symbol = (case M symbol of None \<Rightarrow> [] | Some d \<Rightarrow> d)"

fun is_number :: "json \<Rightarrow> bool" where
  "is_number (JInt i) = True"
| "is_number (JBool b) = True"
| "is_number (JFloat f) = True"
| "is_number v = False"

definition numeric_ts :: "tick list \<Rightarrow> bool" where
  "numeric_ts d = list_all (\<lambda>(t, p). is_number t) d"

text \<open>The ticks of \<open>d\<close> whose timestamp is at least \<open>cutoff\<close>, in the order of \<open>d\<close>.\<close>

definition since :: "pyfloat \<Rightarrow> tick list \<Rightarrow> tick list" where
  "since cutoff d = filter (\<lambda>(t, p). py_ge t cutoff = Inr True) d"

text \<open>
  A sequence of \<open>add_tick\<close> calls, each given by its arguments and the clock reading:
  \<open>add_ticks\<close> runs them in order on one store, whatever each call's outcome;
  \<open>recorded symbol calls\<close> lists, in call order, the ticks that the calls for \<open>symbol\<close>
  whose price converts hand to the deque.
\<close>

type_synonym call = "json \<times> json \<times> json \<times> rat"

fun add_ticks :: "market \<Rightarrow> call list \<Rightarrow> market" where
  "add_ticks M [] = M"
| "add_ticks M ((symbol, price, ts, now) # calls) =
     add_ticks (snd (add_tick M symbol price ts now)) calls"

fun recorded :: "json \<Rightarrow> call list \<Rightarrow> tick list" where
  "recorded symbol [] = []"
| "recorded symbol ((s, price, ts, now) # calls) =
     (if s = symbol \<and> hashable s then
        (case py_float price of
           Inl e \<Rightarrow> []
         | Inr p \<Rightarrow> [(if ts = JNull then JFloat (Fin now) else ts, p)])
      else []) @ recorded symbol calls"

text \<open>
  A field of a decoded object, \<open>JNull\<close> when it is absent (\<open>obj.get(key)\<close>), and the
  value of \<open>a or b or ...\<close> for operands already evaluated.
\<close>

definition field :: "(string \<times> json) list \<Rightarrow> string \<Rightarrow> json" where
  "field kvs k = (case map_of kvs k of None \<Rightarrow> JNull | Some v \<Rightarrow> v)"

fun or_chain :: "json list \<Rightarrow> json" where
  "or_chain [] = JNull"
| "or_chain [x] = x"
| "or_chain (x # xs) = (if truthy x then x else or_chain xs)"

text \<open>
  The exact arithmetic mean of a list of rationals, the float that \<open>statistics.mean\<close>
  makes of it when it is in range, and the slope that \<open>compute_signal\<close> computes from
  the last and the third from last of the finite prices \<open>xs\<close>.
\<close>

definition mean :: "rat list \<Rightarrow> rat" where
  "mean xs = sum_list xs / of_nat (length xs)"

definition rounded_mean :: "rat list \<Rightarrow> pyfloat" where
  "rounded_mean xs = Fin (round_to_grid (mean xs))"

definition slope_of :: "rat list \<Rightarrow> pyfloat" where
  "slope_of xs = fdiv_pos (fsub (Fin (last xs)) (Fin (xs ! (length xs - 3)))) 2"

definition unit_suffix :: "string \<Rightarrow> bool" where
  "unit_suffix s = (endswith s CHR ''m'' \<or> endswith s CHR ''s'' \<or> endswith s CHR ''h'')"

section \<open>Basic facts\<close>

lemma then_do_Inr [simp]: "then_do (Inr x) f = f x"
  by (simp add: then_do_def)

lemma then_do_Inl [simp]: "then_do (Inl e) f = Inl e"
  by (simp add: then_do_def)

lemma last_n_length: "length (last_n n xs) \<le> n"
  by (simp add: last_n_def)

lemma last_n_short: "length xs \<le> n \<Longrightarrow> last_n n xs = xs"
  by (simp add: last_n_def)

lemma last_n_app: "length ws = n \<Longrightarrow> last_n n (zs @ ws @ ys) = drop (length ys) (ws @ ys)"
  by (simp add: last_n_def)

lemma last_n_append_last_n: "last_n n (last_n n xs @ ys) = last_n n (xs @ ys)"
proof (cases "length xs \<le> n")
  case True
  then show ?thesis by (simp add: last_n_def)
next
  case False
  let ?k = "length xs - n"
  have lw: "length (drop ?k xs) = n" using False by simp
  have "last_n n xs = drop ?k xs" by (simp add: last_n_def)
  then have "last_n n (last_n n xs @ ys) = last_n n ([] @ drop ?k xs @ ys)" by simp
  also have "\<dots> = drop (length ys) (drop ?k xs @ ys)" by (rule last_n_app[OF lw])
  also have "\<dots> = last_n n (take ?k xs @ drop ?k xs @ ys)" by (rule last_n_app[OF lw, symmetric])
  also have "take ?k xs @ drop ?k xs @ ys = xs @ ys" by simp
  finally show ?thesis .
qed

section \<open>The tick store\<close>

lemma deque_append_length: "length d \<le> n \<Longrightarrow> length (deque_append n d x) \<le> n"
  by (auto simp: deque_append_def Let_def)

lemma deque_append_last_n:
  assumes "length d \<le> n"
  shows "deque_append n d x = last_n n (d @ [x])"
proof (cases "length d = n")
  case True
  then show ?thesis by (cases d) (auto simp: deque_append_def last_n_def Let_def)
next
  case False
  with assms have "length d < n" by simp
  then show ?thesis by (simp add: deque_append_def last_n_def Let_def)
qed

lemma history_MarketData: "history MarketData symbol = []"
  by (simp add: history_def MarketData_def)

lemma history_upd:
  "history (M(s \<mapsto> h)) symbol = (if symbol = s then h else history M symbol)"
  by (simp add: history_def)

lemma add_tick_unhashable:
  "\<not> hashable s \<Longrightarrow> add_tick M s price ts now = (Inl TypeError, M)"
  by (simp add: add_tick_def ensure_symbol_def)

lemma add_tick_hashable:
  assumes "hashable s"
  shows "add_tick M s price ts now =
     (case py_float price of
        Inl e \<Rightarrow> (Inl e, M(s \<mapsto> history M s))
      | Inr p \<Rightarrow> (Inr (), M(s \<mapsto> deque_append MAX_POINTS (history M s)
                                  (if ts = JNull then JFloat (Fin now) else ts, p))))"
proof (cases "M s")
  case None
  with assms show ?thesis
    by (simp add: add_tick_def ensure_symbol_def history_def split: sum.splits)
next
  case (Some d)
  then have "M(s \<mapsto> d) = M" by (simp add: fun_upd_idem)
  with Some assms show ?thesis
    by (simp add: add_tick_def ensure_symbol_def history_def split: sum.splits)
qed

lemma history_add_tick:
  "history (snd (add_tick M s price ts now)) symbol =
     (if s = symbol \<and> hashable s then
        (case py_float price of
           Inl e \<Rightarrow> history M symbol
         | Inr p \<Rightarrow> deque_append MAX_POINTS (history M symbol)
                     (if ts = JNull then JFloat (Fin now) else ts, p))
      else history M symbol)"
proof (cases "hashable s")
  case False
  then show ?thesis by (simp add: add_tick_unhashable)
next
  case True
  show ?thesis
    using True by (cases "py_float price") (auto simp: add_tick_hashable[OF True] history_upd)
qed

lemma history_add_ticks:
  "length (history M symbol) \<le> MAX_POINTS \<Longrightarrow>
   history (add_ticks M calls) symbol =
     last_n MAX_POINTS (history M symbol @ recorded symbol calls)"
proof (induction calls arbitrary: M)
  case Nil
  then show ?case by (simp add: last_n_short)
next
  case (Cons c calls)
  obtain s price ts now where c: "c = (s, price, ts, now)" by (cases c)
  let ?M' = "snd (add_tick M s price ts now)"
  let ?tk = "\<lambda>p. (if ts = JNull then JFloat (Fin now) else ts, p)"
  consider (other) "\<not> (s = symbol \<and> hashable s)"
    | (bad) e where "s = symbol" "hashable s" "py_float price = Inl e"
    | (good) p where "s = symbol" "hashable s" "py_float price = Inr p"
    by (cases "py_float price") auto
  then have "length (history ?M' symbol) \<le> MAX_POINTS
      \<and> last_n MAX_POINTS (history ?M' symbol @ recorded symbol calls)
        = last_n MAX_POINTS (history M symbol @ recorded symbol (c # calls))"
  proof cases
    case other
    then have "history ?M' symbol = history M symbol" "recorded symbol (c # calls) = recorded symbol calls"
      by (auto simp add: history_add_tick c)
    with Cons.prems show ?thesis by simp
  next
    case bad
    then have "history ?M' symbol = history M symbol" "recorded symbol (c # calls) = recorded symbol calls"
      by (simp_all add: history_add_tick c)
    with Cons.prems show ?thesis by simp
  next
    case good
    then have h: "history ?M' symbol = deque_append MAX_POINTS (history M symbol) (?tk p)"
      and r: "recorded symbol (c # calls) = ?tk p # recorded symbol calls"
      by (simp_all add: history_add_tick c)
    have "last_n MAX_POINTS (history ?M' symbol @ recorded symbol calls)
        = last_n MAX_POINTS ((history M symbol @ [?tk p]) @ recorded symbol calls)"
      unfolding h deque_append_last_n[OF Cons.prems] by (rule last_n_append_last_n)
    then show ?thesis
      unfolding r using deque_append_length[OF Cons.prems, of "?tk p"] h by simp
  qed
  then show ?case using Cons.IH[of ?M'] by (simp add: c)
qed

lemma py_ge_number: "is_number t \<Longrightarrow> \<exists>b. py_ge t c = Inr b"
  by (cases t) simp_all

lemma prices_from_numeric:
  "numeric_ts d \<Longrightarrow> prices_from c d = Inr (map snd (since c d))"
proof (induction d)
  case Nil
  then show ?case by (simp add: since_def)
next
  case (Cons a d)
  obtain t p where a: "a = (t, p)" by (cases a)
  from Cons.prems a have nt: "is_number t" and nd: "numeric_ts d"
    by (simp_all add: numeric_ts_def)
  from py_ge_number[OF nt] obtain b where b: "py_ge t c = Inr b" by blast
  from Cons.IH[OF nd] b a show ?case by (simp add: since_def)
qed

lemma ensure_symbol_str:
  "ensure_symbol M (JStr s) = Inr (if M (JStr s) = None then M(JStr s \<mapsto> []) else M)"
  by (simp add: ensure_symbol_def)

lemma get_prices_since_str:
  "get_prices_since M (JStr s) w now =
     ((case float_of_int w of
         Inl e \<Rightarrow> Inl e
       | Inr wd \<Rightarrow> prices_from (fsub (Fin now) wd) (history M (JStr s))),
      (if M (JStr s) = None then M(JStr s \<mapsto> []) else M))"
  by (cases "float_of_int w")
     (auto simp: get_prices_since_def ensure_symbol_str history_def split: option.splits)

text \<open>
  C5, as amended. \<open>add_tick\<close> has no check of its own: it appends \<open>float(price)\<close>
  whenever the conversion succeeds, and a float price converts to itself, finite or not;
  when the conversion raises, the exception reaches the caller and nothing is appended,
  the store being left with the (possibly new, empty) history of the symbol.
\<close>

theorem add_tick_conversion:
  assumes "hashable symbol"
  shows "(case py_float price of
            Inr p \<Rightarrow> add_tick M symbol price ts now =
               (Inr (), M(symbol \<mapsto> deque_append MAX_POINTS (history M symbol)
                                    (if ts = JNull then JFloat (Fin now) else ts, p)))
          | Inl e \<Rightarrow> add_tick M symbol price ts now = (Inl e, M(symbol \<mapsto> history M symbol)))
         \<and> py_float (JFloat f) = Inr f"
  by (cases "py_float price") (simp_all add: add_tick_hashable[OF assms])

theorem add_tick_conversion_witness:
  "hashable (JStr ''R_100'')
   \<and> add_tick MarketData (JStr ''R_100'') (JFloat (Fin 5)) (JInt 7) 0
       = (Inr (), MarketData(JStr ''R_100'' \<mapsto> [(JInt 7, Fin 5)]))
   \<and> add_tick MarketData (JStr ''R_100'') JNull (JInt 7) 0
       = (Inl TypeError, MarketData(JStr ''R_100'' \<mapsto> []))"
  using add_tick_conversion[where symbol = "JStr ''R_100''" and price = "JFloat (Fin 5)"
                              and M = MarketData and ts = "JInt 7" and now = 0]
        add_tick_conversion[where symbol = "JStr ''R_100''" and price = JNull
                              and M = MarketData and ts = "JInt 7" and now = 0]
  by (simp add: history_MarketData deque_append_def MAX_POINTS_def)

lemma float_of_text_abc: "float_of_text ''abc'' = None"
  by code_simp

theorem add_tick_invalid_price_counterexample:
  "add_tick MarketData (JStr ''R_100'') (JFloat NaN) (JInt 7) 0
     = (Inr (), MarketData(JStr ''R_100'' \<mapsto> [(JInt 7, NaN)]))
   \<and> add_tick MarketData (JStr ''R_100'') (JFloat PosInf) (JInt 7) 0
     = (Inr (), MarketData(JStr ''R_100'' \<mapsto> [(JInt 7, PosInf)]))
   \<and> add_tick MarketData (JStr ''R_100'') (JStr ''abc'') (JInt 7) 0
     = (Inl ValueError, MarketData(JStr ''R_100'' \<mapsto> []))
   \<and> MarketData (JStr ''R_100'') = None"
  by (simp add: add_tick_def ensure_symbol_def MarketData_def deque_append_def
                MAX_POINTS_def float_of_text_abc)

section \<open>Parsing durations\<close>

lemma parse_ok_iff:
  "(\<exists>n. parse_duration s = Inr n) = (unit_suffix s \<and> (\<exists>k. py_int (butlast s) = Inr k))"
  by (cases "py_int (butlast s)") (auto simp: parse_duration_def unit_suffix_def)

lemma parse_seconds: "parse_duration (m @ ''s'') = py_int m"
  by (cases "py_int m") (auto simp: parse_duration_def endswith_def)

lemma parse_minutes: "parse_duration (m @ ''m'') = then_do (py_int m) (\<lambda>n. Inr (n * 60))"
  by (auto simp: parse_duration_def endswith_def)

lemma parse_hours: "parse_duration (m @ ''h'') = then_do (py_int m) (\<lambda>n. Inr (n * 3600))"
  by (auto simp: parse_duration_def endswith_def)

lemma parse_minus_3m: "parse_duration ''-3m'' = Inr (- 180)"
  by code_simp

lemma parse_0s: "parse_duration ''0s'' = Inr 0"
  by code_simp

lemma negative_timeframe_verdict:
  "fst (handle_signal_command [] ''R_100'' ''-3m'' ''0s''
          (MarketData(JStr ''R_100'' \<mapsto> map (\<lambda>i. (JInt 1000, Fin (of_int i))) [1, 2, 3, 4, 5, 6, 7, 8, 9, 10]))
          0 [])
     = Inr (Verdict BUY (FastAbove (Fin 9) (Fin (13 / 2)) (Fin 1)) (Fin 10))"
  by code_simp

text \<open>
  C9. \<open>parse_duration\<close> raises exactly when the last character is none of \<open>m\<close>,
  \<open>s\<close>, \<open>h\<close> or \<open>int\<close> rejects what precedes it. The integer is passed on whatever
  its sign: \<open>-3m\<close> gives \<open>-180\<close> and \<open>0s\<close> gives \<open>0\<close>, and
  \<open>handle_signal_command\<close> goes on with such values up to a verdict of
  \<open>compute_signal\<close>.
\<close>

theorem parse_duration_errors:
  "((\<exists>e. parse_duration s = Inl e) \<longleftrightarrow>
      (\<not> unit_suffix s \<or> (\<exists>e. py_int (butlast s) = Inl e)))
   \<and> parse_duration (m @ ''s'') = py_int m
   \<and> parse_duration (m @ ''m'') = then_do (py_int m) (\<lambda>n. Inr (n * 60))
   \<and> parse_duration (m @ ''h'') = then_do (py_int m) (\<lambda>n. Inr (n * 3600))
   \<and> parse_duration ''-3m'' = Inr (- 180)
   \<and> parse_duration ''0s'' = Inr 0
   \<and> fst (handle_signal_command [] ''R_100'' ''-3m'' ''0s''
          (MarketData(JStr ''R_100'' \<mapsto> map (\<lambda>i. (JInt 1000, Fin (of_int i))) [1, 2, 3, 4, 5, 6, 7, 8, 9, 10]))
          0 [])
       = Inr (Verdict BUY (FastAbove (Fin 9) (Fin (13 / 2)) (Fin 1)) (Fin 10))"
proof -
  have "(\<exists>e. parse_duration s = Inl e) \<longleftrightarrow> \<not> (\<exists>n. parse_duration s = Inr n)"
    by (cases "parse_duration s") auto
  moreover have "(\<exists>e. py_int (butlast s) = Inl e) \<longleftrightarrow> \<not> (\<exists>k. py_int (butlast s) = Inr k)"
    by (cases "py_int (butlast s)") auto
  ultimately have "(\<exists>e. parse_duration s = Inl e) \<longleftrightarrow>
      (\<not> unit_suffix s \<or> (\<exists>e. py_int (butlast s) = Inl e))"
    using parse_ok_iff[of s] by blast
  then show ?thesis
    using parse_seconds parse_minutes parse_hours parse_minus_3m parse_0s
          negative_timeframe_verdict
    by blast
qed

lemma py_int_1_5: "py_int ''1.5'' = Inl ValueError"
  by code_simp

theorem parse_duration_errors_witness:
  "\<not> unit_suffix ''10x'' \<and> (\<exists>e. parse_duration ''10x'' = Inl e)
   \<and> unit_suffix ''1.5m'' \<and> (\<exists>e. parse_duration ''1.5m'' = Inl e)"
  using parse_duration_errors[of "''10x''"] parse_duration_errors[of "''1.5m''"]
  by (simp add: unit_suffix_def endswith_def py_int_1_5)

section \<open>The signal\<close>

lemma slice_from_last_n: "0 < n \<Longrightarrow> slice_from xs (- int n) = last_n n xs"
  by (simp add: slice_from_def last_n_def nat_diff_distrib')





section \<open>The listener\<close>

lemma py_get_dict: "py_get (JDict kvs) k JNull = Inr (field kvs k)"
  by (simp add: field_def)

lemma py_in_dict:
  assumes "map_of kvs k = Some v"
  shows "py_in k (JDict kvs) = Inr True"
proof -
  from assms have "(k, v) \<in> set kvs" by (rule map_of_SomeD)
  then have "fst (k, v) \<in> fst ` set kvs" by (rule imageI)
  then show ?thesis by simp
qed

lemma py_getitem_dict: "map_of kvs k = Some v \<Longrightarrow> py_getitem (JDict kvs) k = Inr v"
  by simp

lemma tick_price_dict:
  "tick_price (JDict t) =
     Inr (or_chain [field t ''quote'', field t ''price'', field t ''bid'', field t ''ask''])"
  by (simp add: tick_price_def field_def)

lemma tick_symbol_truthy:
  "truthy (field t ''symbol'') \<Longrightarrow> tick_symbol (JDict t) data = Inr (field t ''symbol'')"
  by (simp add: tick_symbol_def field_def)

lemma tick_symbol_no_echo:
  "\<not> truthy (field t ''symbol'') \<Longrightarrow> \<not> truthy (field t ''quote'') \<Longrightarrow>
   map_of msg ''echo_req'' = None \<Longrightarrow> tick_symbol (JDict t) (JDict msg) = Inr JNull"
  by (simp add: tick_symbol_def field_def)

lemma listener_tick_dict:
  assumes "map_of msg ''tick'' = Some (JDict t)"
  shows "listener_tick (JDict msg) now =
     then_do (tick_symbol (JDict t) (JDict msg)) (\<lambda>symbol.
       if truthy symbol
          \<and> or_chain [field t ''quote'', field t ''price'', field t ''bid'', field t ''ask'']
              \<noteq> JNull
       then Inr (Some (symbol,
              or_chain [field t ''quote'', field t ''price'', field t ''bid'', field t ''ask''],
              case map_of t ''epoch'' of None \<Rightarrow> JFloat (Fin now) | Some e \<Rightarrow> e))
       else Inr None)"
proof -
  have 1: "py_in ''tick'' (JDict msg) = Inr True" by (rule py_in_dict[OF assms])
  have 2: "py_getitem (JDict msg) ''tick'' = Inr (JDict t)" by (rule py_getitem_dict[OF assms])
  have 3: "py_get (JDict t) ''epoch'' (JFloat (Fin now))
             = Inr (case map_of t ''epoch'' of None \<Rightarrow> JFloat (Fin now) | Some e \<Rightarrow> e)"
    by simp
  show ?thesis
    unfolding listener_tick_def
    by (simp only: 1 2 3 tick_price_dict then_do_Inr if_True if_False not_True_eq_False)
qed

lemma tick_symbol_dict:
  "tick_symbol (JDict t) (JDict msg) =
     (if truthy (field t ''symbol'') then Inr (field t ''symbol'')
      else if truthy (field t ''quote'') then Inr (field t ''quote'')
      else (case map_of msg ''echo_req'' of
              None \<Rightarrow> Inr JNull
            | Some (JDict r) \<Rightarrow> Inr (field r ''subscribe'')
            | Some v \<Rightarrow> Inl AttributeError))"
  by (simp add: tick_symbol_def field_def split: option.splits json.splits)

text \<open>
  C10, as amended. The price is the first truthy value among the tick's \<open>quote\<close>,
  \<open>price\<close> and \<open>bid\<close> fields and otherwise the \<open>ask\<close> field as it is. The symbol
  is the tick's \<open>symbol\<close> field when it is truthy, otherwise its \<open>quote\<close> field when
  that is truthy, and otherwise the \<open>subscribe\<close> field of the message's \<open>echo_req\<close>
  object, null when either is absent. The tick is handed to \<open>add_tick\<close> when this symbol
  is truthy and the price is not null, and dropped, the store unchanged, otherwise. So a
  tick with a truthy symbol whose \<open>quote\<close>, \<open>price\<close> and \<open>bid\<close> are zero, absent or
  otherwise falsy is dropped when \<open>ask\<close> is absent or null, and is handed to
  \<open>add_tick\<close> with the \<open>ask\<close> value otherwise, a zero included.
\<close>

theorem listener_or_chains:
  assumes "map_of msg ''tick'' = Some (JDict t)"
  shows "tick_price (JDict t) =
           Inr (or_chain [field t ''quote'', field t ''price'', field t ''bid'', field t ''ask''])
   \<and> tick_symbol (JDict t) (JDict msg) =
        (if truthy (field t ''symbol'') then Inr (field t ''symbol'')
         else if truthy (field t ''quote'') then Inr (field t ''quote'')
         else (case map_of msg ''echo_req'' of
                 None \<Rightarrow> Inr JNull
               | Some (JDict r) \<Rightarrow> Inr (field r ''subscribe'')
               | Some v \<Rightarrow> Inl AttributeError))
   \<and> on_message M (Some (JDict msg)) now =
        (case tick_symbol (JDict t) (JDict msg) of
           Inl e \<Rightarrow> (Inl e, M)
         | Inr symbol \<Rightarrow>
             if truthy symbol
                \<and> or_chain [field t ''quote'', field t ''price'', field t ''bid'', field t ''ask'']
                    \<noteq> JNull
             then add_tick M symbol
                    (or_chain [field t ''quote'', field t ''price'', field t ''bid'', field t ''ask''])
                    (case map_of t ''epoch'' of None \<Rightarrow> JFloat (Fin now) | Some e \<Rightarrow> e) now
             else (Inr (), M))
   \<and> (truthy (field t ''symbol'') \<and> \<not> truthy (field t ''quote'')
        \<and> \<not> truthy (field t ''price'') \<and> \<not> truthy (field t ''bid'') \<longrightarrow>
      on_message M (Some (JDict msg)) now =
        (if field t ''ask'' = JNull then (Inr (), M)
         else add_tick M (field t ''symbol'') (field t ''ask'')
                (case map_of t ''epoch'' of None \<Rightarrow> JFloat (Fin now) | Some e \<Rightarrow> e) now))
   \<and> (\<not> truthy (field t ''symbol'') \<and> \<not> truthy (field t ''quote'')
        \<and> map_of msg ''echo_req'' = None \<longrightarrow>
      on_message M (Some (JDict msg)) now = (Inr (), M))"
proof -
  have 3: "on_message M (Some (JDict msg)) now =
        (case tick_symbol (JDict t) (JDict msg) of
           Inl e \<Rightarrow> (Inl e, M)
         | Inr symbol \<Rightarrow>
             if truthy symbol
                \<and> or_chain [field t ''quote'', field t ''price'', field t ''bid'', field t ''ask'']
                    \<noteq> JNull
             then add_tick M symbol
                    (or_chain [field t ''quote'', field t ''price'', field t ''bid'', field t ''ask''])
                    (case map_of t ''epoch'' of None \<Rightarrow> JFloat (Fin now) | Some e \<Rightarrow> e) now
             else (Inr (), M))"
    by (cases "tick_symbol (JDict t) (JDict msg)")
       (simp_all add: on_message_def listener_tick_dict[OF assms])
  have 4: "truthy (field t ''symbol'') \<and> \<not> truthy (field t ''quote'')
        \<and> \<not> truthy (field t ''price'') \<and> \<not> truthy (field t ''bid'') \<longrightarrow>
      on_message M (Some (JDict msg)) now =
        (if field t ''ask'' = JNull then (Inr (), M)
         else add_tick M (field t ''symbol'') (field t ''ask'')
                (case map_of t ''epoch'' of None \<Rightarrow> JFloat (Fin now) | Some e \<Rightarrow> e) now)"
    by (simp add: on_message_def listener_tick_dict[OF assms] tick_symbol_truthy)
  have 5: "\<not> truthy (field t ''symbol'') \<and> \<not> truthy (field t ''quote'')
        \<and> map_of msg ''echo_req'' = None \<longrightarrow>
      on_message M (Some (JDict msg)) now = (Inr (), M)"
    by (simp add: on_message_def listener_tick_dict[OF assms] tick_symbol_no_echo)
  show ?thesis using tick_price_dict[of t] tick_symbol_dict[of t msg] 3 4 5 by blast
qed

lemma float_of_int_0: "float_of_int 0 = Inr (Fin 0)"
  by (simp add: float_of_int_def fl_def round_to_grid_def)

theorem listener_or_chains_witness:
  "map_of [(''tick'', JDict [(''symbol'', JStr ''R_100''), (''quote'', JInt 0)])] ''tick''
     = Some (JDict [(''symbol'', JStr ''R_100''), (''quote'', JInt 0)])
   \<and> truthy (field [(''symbol'', JStr ''R_100''), (''quote'', JInt 0)] ''symbol'')
   \<and> on_message MarketData
        (Some (JDict [(''tick'', JDict [(''symbol'', JStr ''R_100''), (''quote'', JInt 0)])])) 9
       = (Inr (), MarketData)
   \<and> on_message MarketData (Some (JDict [(''tick'', JDict [(''quote'', JInt 0)])])) 9
       = (Inr (), MarketData)
   \<and> on_message MarketData
        (Some (JDict [(''tick'', JDict [(''quote'', JFloat (Fin 5)), (''epoch'', JInt 7)])])) 9
       = (Inr (), MarketData(JFloat (Fin 5) \<mapsto> [(JInt 7, Fin 5)]))
   \<and> on_message MarketData
        (Some (JDict [(''tick'', JDict [(''symbol'', JStr ''''), (''quote'', JInt 0),
                                        (''ask'', JFloat (Fin 2)), (''epoch'', JInt 7)]),
                      (''echo_req'', JDict [(''subscribe'', JStr ''R_100'')])])) 9
       = (Inr (), MarketData(JStr ''R_100'' \<mapsto> [(JInt 7, Fin 2)]))
   \<and> on_message MarketData
        (Some (JDict [(''tick'', JDict [(''symbol'', JStr ''''), (''quote'', JInt 0),
                                        (''ask'', JFloat (Fin 2)), (''epoch'', JInt 7)]),
                      (''echo_req'', JDict [(''subscribe'', JStr '''')])])) 9
       = (Inr (), MarketData)
   \<and> on_message MarketData
        (Some (JDict [(''tick'', JDict [(''ask'', JFloat (Fin 2))]),
                      (''echo_req'', JInt 1)])) 9
       = (Inl AttributeError, MarketData)"
  using listener_or_chains[where msg = "[(''tick'', JDict [(''symbol'', JStr ''R_100''), (''quote'', JInt 0)])]"
          and t = "[(''symbol'', JStr ''R_100''), (''quote'', JInt 0)]" and M = MarketData and now = 9]
        listener_or_chains[where msg = "[(''tick'', JDict [(''quote'', JInt 0)])]"
          and t = "[(''quote'', JInt 0)]" and M = MarketData and now = 9]
        listener_or_chains[where msg = "[(''tick'', JDict [(''quote'', JFloat (Fin 5)), (''epoch'', JInt 7)])]"
          and t = "[(''quote'', JFloat (Fin 5)), (''epoch'', JInt 7)]" and M = MarketData and now = 9]
        listener_or_chains[where msg = "[(''tick'', JDict [(''symbol'', JStr ''''), (''quote'', JInt 0),
                                        (''ask'', JFloat (Fin 2)), (''epoch'', JInt 7)]),
                      (''echo_req'', JDict [(''subscribe'', JStr ''R_100'')])]"
          and t = "[(''symbol'', JStr ''''), (''quote'', JInt 0),
                                        (''ask'', JFloat (Fin 2)), (''epoch'', JInt 7)]" and M = MarketData and now = 9]
        listener_or_chains[where msg = "[(''tick'', JDict [(''symbol'', JStr ''''), (''quote'', JInt 0),
                                        (''ask'', JFloat (Fin 2)), (''epoch'', JInt 7)]),
                      (''echo_req'', JDict [(''subscribe'', JStr '''')])]"
          and t = "[(''symbol'', JStr ''''), (''quote'', JInt 0),
                                        (''ask'', JFloat (Fin 2)), (''epoch'', JInt 7)]" and M = MarketData and now = 9]
        listener_or_chains[where msg = "[(''tick'', JDict [(''ask'', JFloat (Fin 2))]),
                      (''echo_req'', JInt 1)]"
          and t = "[(''ask'', JFloat (Fin 2))]" and M = MarketData and now = 9]
  by (simp add: field_def add_tick_def ensure_symbol_def MarketData_def deque_append_def
                MAX_POINTS_def)

theorem listener_zero_ask_counterexample:
  "on_message MarketData
     (Some (JDict [(''tick'', JDict [(''symbol'', JStr ''R_100''), (''quote'', JFloat (Fin 0)),
                                     (''price'', JInt 0), (''bid'', JInt 0), (''ask'', JInt 0),
                                     (''epoch'', JInt 7)])])) 9
     = (Inr (), MarketData(JStr ''R_100'' \<mapsto> [(JInt 7, Fin 0)]))"
  by (simp add: on_message_def listener_tick_def tick_symbol_def tick_price_def add_tick_def
                ensure_symbol_def MarketData_def deque_append_def MAX_POINTS_def float_of_int_0)

section \<open>The snapshot fetch\<close>

lemma subscribe_and_fetch_actions:
  "snd (snd (snd (subscribe_and_fetch symbol dur M now evs))) =
     (case fst (subscribe_and_fetch symbol dur M now evs) of
        Inr collected \<Rightarrow> [Send (subscribe_req symbol), Send (forget_req symbol), Close]
      | Inl e \<Rightarrow> [Send (subscribe_req symbol), Close])"
  by (auto simp: subscribe_and_fetch_def split: prod.splits sum.splits)

lemma subscribe_and_fetch_silent:
  "0 < dur \<Longrightarrow> subscribe_and_fetch symbol dur M now [] =
     (Inl TimeoutError, M, now + of_int dur, [Send (subscribe_req symbol), Close])"
  by (simp add: subscribe_and_fetch_def)

lemma collect_no_budget:
  "\<not> now - start < of_int dur \<Longrightarrow> collect symbol dur start acc M now evs = (Inr acc, M, now)"
  by (cases evs) auto

lemma collect_clock:
  "now - start < of_int dur \<or> now < start + 2 * of_int dur \<Longrightarrow>
   snd (snd (collect symbol dur start acc M now evs)) < start + 2 * of_int dur"
proof (induction evs arbitrary: acc M now)
  case Nil
  then show ?case by auto
next
  case (Cons a evs)
  obtain d ev where a: "a = (d, ev)" by (cases a)
  show ?case
  proof (cases "now - start < of_int dur")
    case False
    with Cons.prems show ?thesis by (simp add: collect_no_budget)
  next
    case True
    show ?thesis
    proof (cases "of_int dur \<le> d")
      case late: True
      with True show ?thesis by (simp add: a)
    next
      case False
      then have nd: "now + d < start + 2 * of_int dur" using True by simp
      show ?thesis
      proof (cases ev)
        case Lost
        with True False nd show ?thesis by (simp add: a)
      next
        case (Text msg)
        obtain r M' where fm: "fetch_message symbol M acc msg (now + d) = (r, M')"
          by (cases "fetch_message symbol M acc msg (now + d)")
        show ?thesis
        proof (cases r)
          case (Inl e)
          with True False nd Text fm show ?thesis by (simp add: a)
        next
          case (Inr acc')
          have "snd (snd (collect symbol dur start acc' M' (now + d) evs)) < start + 2 * of_int dur"
            by (rule Cons.IH) (use nd in simp)
          with True False Text fm Inr show ?thesis by (simp add: a)
        qed
      qed
    qed
  qed
qed

lemmas fetch_eval =
  subscribe_and_fetch_def fetch_message_def fetch_tick_def add_tick_def ensure_symbol_def
  MarketData_def deque_append_def MAX_POINTS_def subscribe_req_def forget_req_def

text \<open>
  C3, as amended. The forget request is sent exactly once, after the subscribe request and
  before the connection is closed, when the collection loop ends through its condition
  and the collected list is returned. When the loop is left by an exception nothing is
  sent after the subscribe request: the connection is closed and the exception propagates.
  A provider that stays silent makes the first receive time out, so the fetch then raises
  \<open>TimeoutError\<close> and sends no forget request; with a budget that is not positive the
  loop is not entered and the empty list is returned.
\<close>

theorem fetch_forget_iff_returns:
  "snd (snd (snd (subscribe_and_fetch symbol dur M now evs))) =
     (case fst (subscribe_and_fetch symbol dur M now evs) of
        Inr collected \<Rightarrow> [Send (subscribe_req symbol), Send (forget_req symbol), Close]
      | Inl e \<Rightarrow> [Send (subscribe_req symbol), Close])
   \<and> (0 < dur \<longrightarrow> subscribe_and_fetch symbol dur M now [] =
         (Inl TimeoutError, M, now + of_int dur, [Send (subscribe_req symbol), Close]))
   \<and> (dur \<le> 0 \<longrightarrow> subscribe_and_fetch symbol dur M now evs =
         (Inr [], M, now, [Send (subscribe_req symbol), Send (forget_req symbol), Close]))"
proof -
  have "dur \<le> 0 \<Longrightarrow> subscribe_and_fetch symbol dur M now evs =
         (Inr [], M, now, [Send (subscribe_req symbol), Send (forget_req symbol), Close])"
    by (simp add: subscribe_and_fetch_def collect_no_budget)
  then show ?thesis
    using subscribe_and_fetch_actions[of symbol dur M now evs]
          subscribe_and_fetch_silent[of dur symbol M now]
    by blast
qed

theorem fetch_forget_iff_returns_witness:
  "(0 :: int) < 5
   \<and> subscribe_and_fetch (JStr ''R_100'') 5 MarketData 0 [] =
       (Inl TimeoutError, MarketData, 5, [Send (subscribe_req (JStr ''R_100'')), Close])
   \<and> (0 :: int) \<le> 0
   \<and> subscribe_and_fetch (JStr ''R_100'') 0 MarketData 0 [(1, Lost)] =
       (Inr [], MarketData, 0,
        [Send (subscribe_req (JStr ''R_100'')), Send (forget_req (JStr ''R_100'')), Close])"
  using fetch_forget_iff_returns[of "JStr ''R_100''" 5 MarketData 0 "[]"]
        fetch_forget_iff_returns[of "JStr ''R_100''" 0 MarketData 0 "[(1, Lost)]"]
  by simp

theorem fetch_no_forget_counterexample:
  "subscribe_and_fetch (JStr ''R_100'') 5 MarketData 0 [] =
     (Inl TimeoutError, MarketData, 5, [Send (subscribe_req (JStr ''R_100'')), Close])
   \<and> subscribe_and_fetch (JStr ''R_100'') 5 MarketData 0
       [(1, Text (Some (JDict [(''tick'', JDict [(''quote'', JFloat (Fin 3)), (''epoch'', JInt 7)])]))),
        (1, Lost)] =
     (Inl ConnectionClosed, MarketData(JStr ''R_100'' \<mapsto> [(JInt 7, Fin 3)]), 2,
      [Send (subscribe_req (JStr ''R_100'')), Close])"
  by (simp add: fetch_eval)

lemma parse_1m: "parse_duration ''1m'' = Inr 60"
  by code_simp

lemma parse_2m: "parse_duration ''2m'' = Inr 120"
  by code_simp

lemma float_of_int_180: "float_of_int 180 = Inr (Fin 180)"
  by code_simp

lemma silent_provider_reply:
  "handle_signal_command [] ''R_100'' ''1m'' ''2m'' MarketData now [] =
     (Inr FailedToRetrieve, MarketData(JStr ''R_100'' \<mapsto> []), now + 10,
      [Send (subscribe_req (JStr ''R_100'')), Close])"
  by (simp add: handle_signal_command_def parse_1m parse_2m format_symbol_def
                get_prices_since_str history_MarketData subscribe_and_fetch_def Let_def
                float_of_int_180)
     (simp add: MarketData_def)

text \<open>
  C4, as amended. Every receive of the fetch loop waits for \<open>duration_seconds\<close>,
  whatever part of the budget has passed: while the budget lasts, a message that comes
  less than \<open>duration_seconds\<close> after the receive began is received and handled, and
  one that takes longer, or never comes, makes the receive raise \<open>TimeoutError\<close>
  after \<open>duration_seconds\<close>. That exception leaves the fetch, which returns no list,
  and \<open>handle_signal_command\<close> answers that the data could not be retrieved. The loop
  is left less than twice \<open>duration_seconds\<close> after it began.
\<close>

theorem fetch_receive_timeout:
  assumes "now - start < of_int dur"
  shows "collect symbol dur start acc M now [] = (Inl TimeoutError, M, now + of_int dur)
   \<and> (of_int dur \<le> d \<longrightarrow>
        collect symbol dur start acc M now ((d, ev) # evs) =
          (Inl TimeoutError, M, now + of_int dur))
   \<and> (d < of_int dur \<and> py_in ''tick'' data = Inr False \<longrightarrow>
        collect symbol dur start acc M now ((d, Text (Some data)) # evs) =
          collect symbol dur start acc M (now + d) evs)
   \<and> snd (snd (collect symbol dur start acc M now evs)) < start + 2 * of_int dur
   \<and> handle_signal_command [] ''R_100'' ''1m'' ''2m'' MarketData now [] =
       (Inr FailedToRetrieve, MarketData(JStr ''R_100'' \<mapsto> []), now + 10,
        [Send (subscribe_req (JStr ''R_100'')), Close])"
proof -
  have "d < of_int dur \<and> py_in ''tick'' data = Inr False \<longrightarrow>
        collect symbol dur start acc M now ((d, Text (Some data)) # evs) =
          collect symbol dur start acc M (now + d) evs"
    using assms by (simp add: fetch_message_def fetch_tick_def)
  moreover have "snd (snd (collect symbol dur start acc M now evs)) < start + 2 * of_int dur"
    using assms by (intro collect_clock) simp
  ultimately show ?thesis
    using assms silent_provider_reply[of now] by simp
qed

theorem fetch_receive_timeout_witness:
  "(6 :: rat) - 0 < of_int 10
   \<and> collect (JStr ''R_100'') 10 0 [] MarketData 6 [] = (Inl TimeoutError, MarketData, 16)
   \<and> collect (JStr ''R_100'') 10 0 [] MarketData 6 [(9, Text (Some (JDict [])))] =
       (Inr [], MarketData, 15)"
  using fetch_receive_timeout[where now = 6 and start = 0 and dur = 10 and d = 9
          and data = "JDict []" and symbol = "JStr ''R_100''" and acc = "[]"
          and M = MarketData and evs = "[]"]
  by simp

theorem fetch_timeout_counterexample:
  "subscribe_and_fetch (JStr ''R_100'') 10 MarketData 0
       [(6, Text (Some (JDict []))),
        (9, Text (Some (JDict [(''tick'', JDict [(''quote'', JFloat (Fin 3)), (''epoch'', JInt 7)])])))] =
     (Inr [(JInt 7, Fin 3)], MarketData(JStr ''R_100'' \<mapsto> [(JInt 7, Fin 3)]), 15,
      [Send (subscribe_req (JStr ''R_100'')), Send (forget_req (JStr ''R_100'')), Close])
   \<and> subscribe_and_fetch (JStr ''R_100'') 10 MarketData 0 [] =
     (Inl TimeoutError, MarketData, 10, [Send (subscribe_req (JStr ''R_100'')), Close])"
  by (simp add: fetch_eval)

text \<open>
  C8. The listener skips a message that is not JSON and a tick without symbol or price,
  but the fetch loop does neither: a message that is not JSON, or a tick without price,
  raises out of \<open>subscribe_and_fetch\<close>. A tick whose price is a text that is no number
  ends the listener as well.
\<close>

theorem bad_message_ends_fetch:
  "fst (subscribe_and_fetch (JStr ''R_100'') 5 MarketData 0 [(1, Text None)])
     = Inl JSONDecodeError
   \<and> deriv_ws_listener MarketData 0 [(1, Text None)] = (Inr (), MarketData)
   \<and> fst (subscribe_and_fetch (JStr ''R_100'') 5 MarketData 0
            [(1, Text (Some (JDict [(''tick'', JDict [(''epoch'', JInt 7)])])))])
     = Inl TypeError
   \<and> deriv_ws_listener MarketData 0
         [(1, Text (Some (JDict [(''tick'', JDict [(''epoch'', JInt 7)])])))]
     = (Inr (), MarketData)
   \<and> fst (deriv_ws_listener MarketData 0
         [(1, Text (Some (JDict [(''tick'', JDict [(''symbol'', JStr ''R_100''),
                                                   (''quote'', JStr ''abc'')])])))])
     = Inl ValueError"
  by (simp add: fetch_eval on_message_def listener_tick_def tick_symbol_def tick_price_def
                float_of_text_abc)

section \<open>Rounding to binary64\<close>

lemma p2_pos: "0 < (2::rat) powi e" by simp
lemma p2_mono: "a \<le> b \<Longrightarrow> (2::rat) powi a \<le> 2 powi b" by (rule power_int_increasing) simp_all
lemma p2_strict: "a < b \<Longrightarrow> (2::rat) powi a < 2 powi b" by (rule power_int_strict_increasing) simp_all
lemma p2_add: "(2::rat) powi (a + b) = 2 powi a * 2 powi b" by (rule power_int_add) simp
lemma p2_diff: "(2::rat) powi (a - b) = 2 powi a / 2 powi b" by (rule power_int_diff) simp
lemma p2_nat: "0 \<le> k \<Longrightarrow> (2::rat) powi k = of_int (2 ^ nat k)"
  by (simp add: power_int_nonneg_exp)

lemma bitlen_pos: "0 < n \<Longrightarrow> 1 \<le> bitlen n"
  using bitlen_eq_zero_iff[of n] bitlen_nonneg[of n] by linarith

lemma ilog2_bounds:
  assumes "0 < x"
  shows "2 powi (ilog2 x) \<le> x \<and> x < 2 powi (ilog2 x + 1)"
proof (cases "1 \<le> x")
  case True
  define n where "n = \<lfloor>x\<rfloor>"
  have n1: "1 \<le> n" using True by (simp add: n_def le_floor_iff)
  then have n0: "0 < n" by simp
  from bitlen_bounds[OF n0] have lo: "2 ^ nat (bitlen n - 1) \<le> n" and hi: "n < 2 ^ nat (bitlen n)"
    by auto
  have b1: "1 \<le> bitlen n" by (rule bitlen_pos[OF n0])
  have il: "ilog2 x = bitlen n - 1" using True by (simp add: ilog2_def n_def)
  have "(2::rat) powi (bitlen n - 1) = of_int (2 ^ nat (bitlen n - 1))"
    using b1 by (intro p2_nat) simp
  also have "\<dots> \<le> of_int n" using lo by (simp only: of_int_le_iff)
  also have "of_int n \<le> x" by (simp add: n_def)
  finally have L: "2 powi (ilog2 x) \<le> x" by (simp add: il)
  have "x < of_int (n + 1)" unfolding n_def by linarith
  also have "(of_int (n + 1) :: rat) \<le> of_int (2 ^ nat (bitlen n))"
    using hi by (simp only: of_int_le_iff; linarith)
  also have "\<dots> = 2 powi (bitlen n)" using b1 by (subst p2_nat) simp_all
  finally have "x < 2 powi (ilog2 x + 1)" by (simp add: il)
  with L show ?thesis by simp
next
  case False
  define y where "y = 1 / x"
  have y1: "1 < y" using False assms by (simp add: y_def)
  define m where "m = \<lceil>y\<rceil>"
  have m2: "1 < m" using y1 by (simp add: m_def less_ceiling_iff)
  then have m0: "0 < m - 1" by simp
  define c where "c = bitlen (m - 1)"
  from bitlen_bounds[OF m0] have lo: "2 ^ nat (c - 1) \<le> m - 1" and hi: "m - 1 < 2 ^ nat c"
    by (auto simp: c_def)
  have c1: "1 \<le> c" unfolding c_def by (rule bitlen_pos[OF m0])
  have il: "ilog2 x = - c" using False by (simp add: ilog2_def c_def m_def y_def)
  have "y \<le> of_int m" by (simp add: m_def)
  also have "(of_int m :: rat) \<le> of_int (2 ^ nat c)" using hi by (simp only: of_int_le_iff; linarith)
  also have "\<dots> = 2 powi c" using c1 by (subst p2_nat) simp_all
  finally have "1 / x \<le> 2 powi c" by (simp add: y_def)
  then have "1 \<le> 2 powi c * x" using assms by (simp add: field_simps)
  then have L: "2 powi (- c) \<le> x"
    using p2_pos[of c] by (simp add: power_int_minus_divide field_simps)
  have "(2::rat) powi (c - 1) = of_int (2 ^ nat (c - 1))" using c1 by (intro p2_nat) simp
  also have "\<dots> \<le> of_int (m - 1)" using lo by (simp only: of_int_le_iff)
  also have "(of_int (m - 1) :: rat) < y" unfolding m_def by linarith
  finally have "2 powi (c - 1) < 1 / x" by (simp add: y_def)
  then have "2 powi (c - 1) * x < 1" using assms by (simp add: field_simps)
  then have "x < 1 / 2 powi (c - 1)" using p2_pos[of "c - 1"] by (simp add: field_simps)
  also have "1 / (2::rat) powi (c - 1) = 2 powi (- (c - 1))"
    by (rule power_int_minus_divide[symmetric])
  also have "- (c - 1) = - c + 1" by simp
  finally have "x < 2 powi (- c + 1)" .
  with L show ?thesis by (simp add: il)
qed

lemma ilog2_unique:
  assumes "2 powi e \<le> x" "x < 2 powi (e + 1)"
  shows "ilog2 x = e"
proof -
  have x0: "0 < x" using p2_pos[of e] assms(1) by linarith
  note b = ilog2_bounds[OF x0]
  have "\<not> ilog2 x < e"
  proof
    assume "ilog2 x < e"
    then have "ilog2 x + 1 \<le> e" by simp
    from p2_mono[OF this] b assms show False by linarith
  qed
  moreover have "\<not> e < ilog2 x"
  proof
    assume "e < ilog2 x"
    then have "e + 1 \<le> ilog2 x" by simp
    from p2_mono[OF this] b assms show False by linarith
  qed
  ultimately show ?thesis by simp
qed

lemma ilog2_mono:
  assumes "0 < x" "x \<le> y"
  shows "ilog2 x \<le> ilog2 y"
proof (rule ccontr)
  assume "\<not> ilog2 x \<le> ilog2 y"
  then have "ilog2 y + 1 \<le> ilog2 x" by simp
  from p2_mono[OF this] ilog2_bounds[OF assms(1)] ilog2_bounds[of y] assms show False by force
qed

lemma ilog2_ge_iff:
  assumes "0 < x"
  shows "e \<le> ilog2 x \<longleftrightarrow> 2 powi e \<le> x"
proof
  assume "e \<le> ilog2 x"
  from p2_mono[OF this] ilog2_bounds[OF assms] show "2 powi e \<le> x" by linarith
next
  assume a: "2 powi e \<le> x"
  show "e \<le> ilog2 x"
  proof (rule ccontr)
    assume "\<not> e \<le> ilog2 x"
    then have "ilog2 x + 1 \<le> e" by simp
    from p2_mono[OF this] ilog2_bounds[OF assms] a show False by linarith
  qed
qed

lemma rhe_cases: "round_half_even x = \<lfloor>x\<rfloor> \<or> round_half_even x = \<lfloor>x\<rfloor> + 1"
  by (simp add: round_half_even_def Let_def)

lemma rhe_int [simp]: "round_half_even (of_int n) = n"
  by (simp add: round_half_even_def)

lemma rhe_mono:
  assumes "x \<le> y"
  shows "round_half_even x \<le> round_half_even y"
proof (cases "\<lfloor>x\<rfloor> < \<lfloor>y\<rfloor>")
  case True
  have "round_half_even x \<le> \<lfloor>x\<rfloor> + 1" using rhe_cases[of x] by auto
  moreover have "\<lfloor>y\<rfloor> \<le> round_half_even y" using rhe_cases[of y] by auto
  ultimately show ?thesis using True by linarith
next
  case False
  then have eq: "\<lfloor>x\<rfloor> = \<lfloor>y\<rfloor>" using floor_mono[OF assms] by simp
  have "x - of_int \<lfloor>y\<rfloor> \<le> y - of_int \<lfloor>y\<rfloor>" using assms by simp
  then show ?thesis by (auto simp: round_half_even_def Let_def eq)
qed

lemma rhe_neg: "round_half_even (- x) = - round_half_even x"
proof (cases "x = of_int \<lfloor>x\<rfloor>")
  case True
  then obtain n where x: "x = of_int n" ..
  have "round_half_even (- of_int n) = round_half_even (of_int (- n))" by simp
  then show ?thesis unfolding x by (simp only: rhe_int)
next
  case False
  then have c: "\<lceil>x\<rceil> = \<lfloor>x\<rfloor> + 1" by (simp add: ceiling_altdef)
  have f: "\<lfloor>- x\<rfloor> = - \<lfloor>x\<rfloor> - 1" by (simp add: floor_minus c)
  have lt: "of_int \<lfloor>x\<rfloor> < x" using False of_int_floor_le[of x] by linarith
  show ?thesis
    unfolding round_half_even_def Let_def f
    using lt by (auto simp: algebra_simps)
qed

lemma ulp_pos: "0 < ulp_of x"
  by (simp add: ulp_of_def)

lemma ulp_neg: "ulp_of (- x) = ulp_of x"
  by (simp add: ulp_of_def)

lemma rtg_0 [simp]: "round_to_grid 0 = 0"
  by (simp add: round_to_grid_def)

lemma rtg_neg: "round_to_grid (- x) = - round_to_grid x"
  by (simp add: round_to_grid_def ulp_neg rhe_neg)

lemma rtg_nonneg:
  assumes "0 \<le> x"
  shows "0 \<le> round_to_grid x"
proof -
  have "0 \<le> x / ulp_of x" using assms ulp_pos[of x] by simp
  from rhe_mono[OF this] have "0 \<le> round_half_even (x / ulp_of x)"
    using rhe_int[of 0] by simp
  then show ?thesis using ulp_pos[of x] by (simp add: round_to_grid_def)
qed

lemma rtg_upper:
  assumes "0 < x"
  shows "round_to_grid x \<le> 2 powi (max (ilog2 x) (- 1022) + 1)"
proof -
  define e where "e = max (ilog2 x) (- 1022)"
  define u :: rat where "u = 2 powi (e - 52)"
  have u: "ulp_of x = u" using assms by (simp add: ulp_of_def u_def e_def)
  have u0: "0 < u" by (simp add: u_def)
  have "x < 2 powi (ilog2 x + 1)" using ilog2_bounds[OF assms] by simp
  also have "\<dots> \<le> 2 powi (e + 1)" by (rule p2_mono) (simp add: e_def)
  also have "(2::rat) powi (e + 1) = 2 powi (53 + (e - 52))"
    by (rule arg_cong[where f = "\<lambda>k. 2 powi k"]) simp
  also have "\<dots> = 2 powi 53 * u"
    unfolding u_def by (rule p2_add)
  finally have "x / u \<le> of_int (2 ^ 53)" using u0 by (simp add: field_simps)
  from rhe_mono[OF this] have "round_half_even (x / u) \<le> 2 ^ 53" by (simp only: rhe_int)
  then have "(of_int (round_half_even (x / u)) :: rat) \<le> of_int (2 ^ 53)"
    by (simp only: of_int_le_iff)
  then have "of_int (round_half_even (x / u)) * u \<le> of_int (2 ^ 53) * u"
    using u0 by (intro mult_right_mono) simp_all
  also have "of_int (2 ^ 53) * u = 2 powi 53 * 2 powi (e - 52)"
    by (simp add: u_def)
  also have "\<dots> = 2 powi (53 + (e - 52))"
    by (rule p2_add[symmetric])
  also have "53 + (e - 52) = e + 1" by simp
  finally show ?thesis using assms by (simp add: round_to_grid_def u e_def)
qed

lemma rtg_lower:
  assumes "0 < x" "- 1022 \<le> ilog2 x"
  shows "2 powi (ilog2 x) \<le> round_to_grid x"
proof -
  define e where "e = ilog2 x"
  define u :: rat where "u = 2 powi (e - 52)"
  have u: "ulp_of x = u" using assms by (simp add: ulp_of_def u_def e_def max_def)
  have u0: "0 < u" by (simp add: u_def)
  have eu: "(2::rat) powi e = 2 powi 52 * u"
    unfolding u_def by (subst p2_add[symmetric]) simp
  have "2 powi e \<le> x" using ilog2_bounds[OF assms(1)] by (simp add: e_def)
  then have "of_int (2 ^ 52) \<le> x / u" using u0 by (simp add: field_simps eu)
  from rhe_mono[OF this] have "2 ^ 52 \<le> round_half_even (x / u)" by (simp only: rhe_int)
  then have "(of_int (2 ^ 52) :: rat) \<le> of_int (round_half_even (x / u))"
    by (simp only: of_int_le_iff)
  then have "of_int (2 ^ 52) * u \<le> of_int (round_half_even (x / u)) * u"
    using u0 by (intro mult_right_mono) simp_all
  then show ?thesis using assms by (simp add: round_to_grid_def u e_def[symmetric] eu)
qed

lemma rtg_mono_pos:
  assumes "0 < x" "x \<le> y"
  shows "round_to_grid x \<le> round_to_grid y"
proof -
  have y0: "0 < y" using assms by simp
  define ex where "ex = max (ilog2 x) (- 1022)"
  define ey where "ey = max (ilog2 y) (- 1022)"
  have le: "ex \<le> ey" using ilog2_mono[OF assms] by (simp add: ex_def ey_def)
  show ?thesis
  proof (cases "ex = ey")
    case True
    then have u: "ulp_of y = ulp_of x" using assms y0 by (simp add: ulp_of_def ex_def ey_def)
    have "x / ulp_of x \<le> y / ulp_of x" using assms ulp_pos[of x] by (simp add: divide_right_mono)
    from rhe_mono[OF this]
    have "(of_int (round_half_even (x / ulp_of x)) :: rat) \<le> of_int (round_half_even (y / ulp_of x))"
      by (simp only: of_int_le_iff)
    then have "of_int (round_half_even (x / ulp_of x)) * ulp_of x
                \<le> of_int (round_half_even (y / ulp_of x)) * ulp_of x"
      using ulp_pos[of x] by (intro mult_right_mono) simp_all
    then show ?thesis using assms y0 by (simp add: round_to_grid_def u)
  next
    case False
    with le have lt: "ex < ey" by simp
    then have ey: "ey = ilog2 y" and n: "- 1022 \<le> ilog2 y"
      by (auto simp: ex_def ey_def max_def split: if_splits)
    have "round_to_grid x \<le> 2 powi (ex + 1)" using rtg_upper[OF assms(1)] by (simp add: ex_def)
    also have "\<dots> \<le> 2 powi ey" by (rule p2_mono) (use lt in simp)
    also have "\<dots> \<le> round_to_grid y" unfolding ey by (rule rtg_lower[OF y0 n])
    finally show ?thesis .
  qed
qed

lemma rtg_mono:
  assumes "x \<le> y"
  shows "round_to_grid x \<le> round_to_grid y"
proof -
  consider "0 < x" | "x \<le> 0" "0 \<le> y" | "y < 0" using assms by linarith
  then show ?thesis
  proof cases
    case 1
    then show ?thesis by (rule rtg_mono_pos[OF _ assms])
  next
    case 2
    have "round_to_grid x \<le> 0" using rtg_nonneg[of "- x"] 2 by (simp add: rtg_neg)
    also have "0 \<le> round_to_grid y" by (rule rtg_nonneg[OF 2(2)])
    finally show ?thesis .
  next
    case 3
    then have "0 < - y" "- y \<le> - x" using assms by simp_all
    from rtg_mono_pos[OF this] show ?thesis by (simp add: rtg_neg)
  qed
qed

lemma fl_alt:
  "fl x = (if 2 powi 1024 \<le> round_to_grid x then PosInf
           else if round_to_grid x \<le> - (2 powi 1024) then NegInf
           else Fin (round_to_grid x))"
proof -
  define y where "y = round_to_grid x"
  consider "y = 0" | "0 < y" | "y < 0" by linarith
  then have "(let y = y in if y = 0 then Fin 0
      else if 1024 \<le> ilog2 \<bar>y\<bar> then (if 0 < y then PosInf else NegInf) else Fin y)
     = (if 2 powi 1024 \<le> y then PosInf else if y \<le> - (2 powi 1024) then NegInf else Fin y)"
  proof cases
    case 1
    have "\<not> (2::rat) powi 1024 \<le> 0" using p2_pos[of 1024] by linarith
    with 1 show ?thesis by simp
  next
    case 2
    then have "\<not> y \<le> - (2 powi 1024)" using p2_pos[of 1024] by linarith
    with 2 show ?thesis using ilog2_ge_iff[OF 2, of 1024] by simp
  next
    case 3
    then have m: "0 < - y" by simp
    have "\<not> 2 powi 1024 \<le> y" using 3 p2_pos[of 1024] by linarith
    with 3 show ?thesis using ilog2_ge_iff[OF m, of 1024] by auto
  qed
  then show ?thesis unfolding fl_def y_def .
qed

lemma is_double_rtg:
  "is_double x \<Longrightarrow> round_to_grid x = x \<and> x < 2 powi 1024 \<and> - (2 powi 1024) < x"
  unfolding is_double_def fl_alt by (auto split: if_splits)

lemma grid_multiple:
  assumes "is_double x"
  shows "\<exists>k::int. x = of_int k * 2 powi (- 1074)"
proof (cases "x = 0")
  case True
  then show ?thesis by (intro exI[of _ 0]) simp
next
  case False
  define e where "e = max (ilog2 \<bar>x\<bar>) (- 1022)"
  define g :: rat where "g = 2 powi (- 1074)"
  have e: "0 \<le> e + 1022" by (simp add: e_def)
  have u: "ulp_of x = 2 powi (e - 52)" by (simp add: ulp_of_def e_def)
  have "(2::rat) powi (e - 52) = 2 powi ((e + 1022) + (- 1074))"
    by (rule arg_cong[where f = "\<lambda>k. 2 powi k"]) simp
  also have "\<dots> = 2 powi (e + 1022) * g"
    unfolding g_def by (rule p2_add)
  also have "2 powi (e + 1022) = (of_int (2 ^ nat (e + 1022)) :: rat)"
    by (rule p2_nat[OF e])
  finally have u': "ulp_of x = of_int (2 ^ nat (e + 1022)) * g" using u by simp
  from is_double_rtg[OF assms] have "x = round_to_grid x" by simp
  also have "\<dots> = of_int (round_half_even (x / ulp_of x)) * ulp_of x"
    using False by (simp add: round_to_grid_def)
  also have "\<dots> = of_int (round_half_even (x / ulp_of x)) * (of_int (2 ^ nat (e + 1022)) * g)"
    by (simp only: u'[symmetric])
  also have "\<dots> = of_int (round_half_even (x / ulp_of x) * 2 ^ nat (e + 1022)) * g"
    by (simp only: of_int_mult mult.assoc)
  finally show ?thesis unfolding g_def by (rule exI)
qed

lemma grid_gap:
  assumes "is_double a" "is_double b" "a < b"
  shows "a + 2 powi (- 1074) \<le> b"
proof -
  define g :: rat where "g = 2 powi (- 1074)"
  have g0: "0 < g" unfolding g_def by (rule p2_pos)
  from grid_multiple[OF assms(1)] obtain ka :: int where a: "a = of_int ka * g"
    unfolding g_def by blast
  from grid_multiple[OF assms(2)] obtain kb :: int where b: "b = of_int kb * g"
    unfolding g_def by blast
  from assms(3) have "(of_int ka :: rat) < of_int kb"
    unfolding a b using g0 by (simp only: mult_less_cancel_right_pos)
  then have "ka + 1 \<le> kb" by simp
  then have "(of_int (ka + 1) :: rat) \<le> of_int kb" by (simp only: of_int_le_iff)
  then have "of_int (ka + 1) * g \<le> of_int kb * g"
    using g0 by (intro mult_right_mono) simp_all
  then have "a + g \<le> b" unfolding a b by (simp add: algebra_simps)
  then show ?thesis unfolding g_def .
qed

lemma rtg_subnormal_point:
  assumes "0 < n" "of_int n * 2 powi (- 1074) < (2::rat) powi (- 1022)"
  shows "round_to_grid (of_int n * 2 powi (- 1074)) = of_int n * 2 powi (- 1074)"
proof -
  define g :: rat where "g = 2 powi (- 1074)"
  define x where "x = of_int n * g"
  have g0: "0 < g" unfolding g_def by (rule p2_pos)
  have x0: "0 < x" unfolding x_def using assms(1) g0 by simp
  have "\<not> - 1022 \<le> ilog2 x"
    using ilog2_ge_iff[OF x0, of "- 1022"] assms(2) by (simp add: x_def g_def)
  then have "max (ilog2 \<bar>x\<bar>) (- 1022) = - 1022" using x0 by simp
  then have u: "ulp_of x = g" by (simp add: ulp_of_def g_def)
  have "x / g = of_int n" using g0 by (simp add: x_def)
  then have "round_to_grid x = of_int n * g"
    using x0 by (simp add: round_to_grid_def u)
  then show ?thesis unfolding x_def g_def .
qed

lemma rtg_ge_tiny:
  assumes "2 powi (- 1074) \<le> x"
  shows "2 powi (- 1074) \<le> round_to_grid x"
proof -
  have "(2::rat) powi (- 1074) < 2 powi (- 1022)" by (rule p2_strict) simp
  then have "round_to_grid (of_int 1 * 2 powi (- 1074)) = of_int 1 * 2 powi (- 1074)"
    by (intro rtg_subnormal_point) simp_all
  then have "round_to_grid (2 powi (- 1074)) = 2 powi (- 1074)" by simp
  with rtg_mono[OF assms] show ?thesis by simp
qed

lemma rtg_ge_two_tiny:
  assumes "2 * 2 powi (- 1074) \<le> x"
  shows "2 * 2 powi (- 1074) \<le> round_to_grid x"
proof -
  have "(2::rat) * 2 powi (- 1074) = 2 powi (1 + (- 1074))" by (subst p2_add) simp
  also have "\<dots> < 2 powi (- 1022)" by (rule p2_strict) simp
  finally have "round_to_grid (of_int 2 * 2 powi (- 1074)) = of_int 2 * 2 powi (- 1074)"
    by (intro rtg_subnormal_point) simp_all
  then have "round_to_grid (2 * 2 powi (- 1074)) = 2 * 2 powi (- 1074)" by simp
  with rtg_mono[OF assms] show ?thesis by simp
qed

lemma fl_pos:
  assumes "2 powi (- 1074) \<le> x"
  shows "fgt (fl x) (Fin 0)"
proof -
  have "0 < round_to_grid x" using rtg_ge_tiny[OF assms] p2_pos[of "- 1074"] by linarith
  then show ?thesis using p2_pos[of 1024] by (simp add: fl_alt fgt_def)
qed

lemma slope_pos:
  assumes "2 * 2 powi (- 1074) \<le> c - a"
  shows "fgt (fdiv_pos (fsub (Fin c) (Fin a)) 2) (Fin 0)"
proof -
  define y where "y = round_to_grid (c - a)"
  have y: "2 * 2 powi (- 1074) \<le> y" unfolding y_def by (rule rtg_ge_two_tiny[OF assms])
  have s: "fsub (Fin c) (Fin a) = fl (c - a)" by (simp add: fsub_def)
  show ?thesis
  proof (cases "2 powi 1024 \<le> y")
    case True
    then show ?thesis by (simp add: s fl_alt y_def[symmetric] fgt_def)
  next
    case False
    have "\<not> y \<le> - (2 powi 1024)" using y p2_pos[of 1024] p2_pos[of "- 1074"] by linarith
    with False have "fsub (Fin c) (Fin a) = Fin y" by (simp add: s fl_alt y_def[symmetric])
    moreover have "2 powi (- 1074) \<le> y / 2" using y by simp
    ultimately show ?thesis using fl_pos by simp
  qed
qed

section \<open>Monotone prices\<close>

lemma fl_neg: "fl (- x) = fneg (fl x)"
  using p2_pos[of 1024] by (auto simp: fl_alt rtg_neg)

lemma slope_neg:
  assumes "2 * 2 powi (- 1074) \<le> a - c"
  shows "flt (fdiv_pos (fsub (Fin c) (Fin a)) 2) (Fin 0)"
proof -
  have "c - a = - (a - c)" by simp
  then have "fl (c - a) = fneg (fl (a - c))" by (simp only: fl_neg)
  then have s: "fsub (Fin c) (Fin a) = fneg (fsub (Fin a) (Fin c))" by (simp add: fsub_def)
  have d: "fdiv_pos (fneg q) 2 = fneg (fdiv_pos q 2)" for q
    by (cases q) (simp_all add: fl_neg[symmetric])
  have n: "flt (fneg q) (Fin 0) = fgt q (Fin 0)" for q
    by (cases q) (simp_all add: fgt_def)
  show ?thesis unfolding s d n by (rule slope_pos[OF assms])
qed

lemma sum_list_lower: "\<forall>x\<in>set xs. lo \<le> x \<Longrightarrow> of_nat (length xs) * lo \<le> (sum_list xs :: rat)"
  by (induction xs) (auto simp: algebra_simps)

lemma sum_list_upper: "\<forall>x\<in>set xs. x \<le> hi \<Longrightarrow> (sum_list xs :: rat) \<le> of_nat (length xs) * hi"
  by (induction xs) (auto simp: algebra_simps)

lemma sum_list_strict_upper:
  "xs \<noteq> [] \<Longrightarrow> \<forall>x\<in>set xs. x < hi \<Longrightarrow> (sum_list xs :: rat) < of_nat (length xs) * hi"
proof (induction xs rule: list_nonempty_induct)
  case (single x)
  then show ?case by simp
next
  case (cons x xs)
  then have "sum_list xs < of_nat (length xs) * hi" "x < hi" by simp_all
  then show ?case by (simp add: algebra_simps)
qed

lemma mean_bounds:
  assumes "xs \<noteq> []" "\<forall>x\<in>set xs. lo \<le> x \<and> x \<le> hi"
  shows "lo \<le> mean xs \<and> mean xs \<le> hi"
proof -
  have n: "0 < (of_nat (length xs) :: rat)" using assms(1) by simp
  have "of_nat (length xs) * lo \<le> sum_list xs" using assms(2) by (intro sum_list_lower) simp
  moreover have "sum_list xs \<le> of_nat (length xs) * hi" using assms(2) by (intro sum_list_upper) simp
  ultimately show ?thesis using n by (simp add: mean_def field_simps)
qed

lemma py_mean_doubles:
  assumes "xs \<noteq> []" "list_all is_double xs"
  shows "py_mean (map Fin xs) = Inr (rounded_mean xs)"
proof -
  define lo where "lo = Min (set xs)"
  define hi where "hi = Max (set xs)"
  have "lo \<in> set xs" "hi \<in> set xs" using assms(1) by (simp_all add: lo_def hi_def)
  then have dl: "is_double lo" and dh: "is_double hi" using assms(2) by (simp_all add: list_all_iff)
  have "\<forall>x\<in>set xs. lo \<le> x \<and> x \<le> hi" by (simp add: lo_def hi_def)
  from mean_bounds[OF assms(1) this] have b: "lo \<le> mean xs" "mean xs \<le> hi" by simp_all
  have "lo \<le> round_to_grid (mean xs)" using rtg_mono[OF b(1)] is_double_rtg[OF dl] by simp
  moreover have "round_to_grid (mean xs) \<le> hi" using rtg_mono[OF b(2)] is_double_rtg[OF dh] by simp
  ultimately have "\<not> 2 powi 1024 \<le> round_to_grid (mean xs)"
    "\<not> round_to_grid (mean xs) \<le> - (2 powi 1024)"
    using is_double_rtg[OF dl] is_double_rtg[OF dh] by linarith+
  then have f: "fl (mean xs) = Fin (round_to_grid (mean xs))" by (simp add: fl_alt)
  have 1: "list_all is_fin (map Fin xs)" by (simp add: list_all_iff)
  have 2: "map (fin_val \<circ> Fin) xs = xs" by (simp add: comp_def)
  show ?thesis
    using assms(1) by (simp add: py_mean_def 1 2 f[unfolded mean_def] rounded_mean_def mean_def)
qed

lemma last_n_map: "last_n n (map g xs) = map g (last_n n xs)"
  by (simp add: last_n_def drop_map)

lemma mean_last_increasing:
  assumes "sorted_wrt (<) xs" "0 < f" "f < s" "s \<le> length xs"
  shows "mean (last_n s xs) < mean (last_n f xs)"
proof -
  define C where "C = last_n s xs"
  define A where "A = take (s - f) C"
  define B where "B = drop (s - f) C"
  have lenC: "length C = s" using assms by (simp add: C_def last_n_def)
  have B: "B = last_n f xs" using assms by (simp add: B_def C_def last_n_def)
  have C: "C = A @ B" by (simp add: A_def B_def)
  have lenA: "length A = s - f" using assms lenC by (simp add: A_def)
  have lenB: "length B = f" using assms lenC by (simp add: B_def)
  have sC: "sorted_wrt (<) (A @ B)" unfolding C[symmetric] C_def last_n_def
    by (rule sorted_wrt_drop[OF assms(1)])
  have Bne: "B \<noteq> []" and Ane: "A \<noteq> []" using lenA lenB assms by auto
  define m where "m = hd B"
  have mB: "m \<in> set B" using Bne by (simp add: m_def)
  have am: "\<forall>a\<in>set A. a < m" using sC mB by (auto simp: sorted_wrt_append)
  have "sorted_wrt (<) B" using sC by (simp add: sorted_wrt_append)
  then have mb: "\<forall>b\<in>set B. m \<le> b" using Bne unfolding m_def by (cases B) auto
  have sa: "sum_list A < of_nat (s - f) * m" using sum_list_strict_upper[OF Ane am] by (simp add: lenA)
  have sb: "of_nat f * m \<le> sum_list B" using sum_list_lower[OF mb] by (simp add: lenB)
  define F :: rat where "F = of_nat f"
  define D :: rat where "D = of_nat (s - f)"
  have F0: "0 < F" and D0: "0 < D" using assms by (simp_all add: F_def D_def)
  have S: "(of_nat s :: rat) = F + D" using assms by (simp add: F_def D_def flip: of_nat_add)
  have "F * sum_list A < F * (D * m)" using sa F0 by (simp add: D_def)
  also have "\<dots> = D * (F * m)" by simp
  also have "\<dots> \<le> D * sum_list B" using sb D0 by (simp add: F_def)
  finally have "F * (sum_list A + sum_list B) < (F + D) * sum_list B" by (simp add: algebra_simps)
  then have "(sum_list A + sum_list B) / (F + D) < sum_list B / F"
    using F0 D0 by (simp add: field_simps)
  moreover have "mean C = (sum_list A + sum_list B) / (F + D)"
    unfolding mean_def lenC S by (simp add: C)
  moreover have "mean B = sum_list B / F"
    by (simp add: mean_def lenB F_def)
  ultimately have "mean C < mean B" by simp
  then show ?thesis by (simp only: C_def B)
qed

lemma sum_list_neg: "sum_list (map uminus ys) = - (sum_list ys :: rat)"
  by (induction ys) simp_all

lemma mean_last_decreasing:
  assumes "sorted_wrt (>) xs" "0 < f" "f < s" "s \<le> length xs"
  shows "mean (last_n f xs) < mean (last_n s xs)"
proof -
  have sw: "sorted_wrt (<) (map uminus xs)" using assms(1) by (simp add: sorted_wrt_map)
  have mm: "mean (last_n k (map uminus xs)) = - mean (last_n k xs)" for k
    by (simp add: last_n_map mean_def sum_list_neg)
  have "s \<le> length (map uminus xs)" using assms(4) by simp
  from mean_last_increasing[OF sw assms(2,3) this] show ?thesis by (simp add: mm)
qed

lemma list_all_last_n: "list_all P xs \<Longrightarrow> list_all P (last_n n xs)"
  by (auto simp: list_all_iff last_n_def dest: in_set_dropD)

lemma compute_signal_doubles:
  assumes "list_all is_double xs" "0 < f" "f < s" "3 \<le> s" "s \<le> length xs"
  shows "compute_signal (map Fin xs) (int f) (int s) =
     (if fgt (rounded_mean (last_n f xs)) (rounded_mean (last_n s xs)) \<and> fgt (slope_of xs) (Fin 0)
      then Inr (BUY, FastAbove (rounded_mean (last_n f xs)) (rounded_mean (last_n s xs)) (slope_of xs))
      else if flt (rounded_mean (last_n f xs)) (rounded_mean (last_n s xs)) \<and> flt (slope_of xs) (Fin 0)
      then Inr (SELL, FastBelow (rounded_mean (last_n f xs)) (rounded_mean (last_n s xs)) (slope_of xs))
      else Inr (HOLD, Neutral (rounded_mean (last_n f xs)) (rounded_mean (last_n s xs)) (slope_of xs)))"
proof -
  have s0: "0 < s" using assms by simp
  have g: "\<not> (int (length (map Fin xs)) < max (int f) (int s) \<or> length (map Fin xs) < 3)"
    using assms by simp
  have sl: "int s \<le> int (length (map Fin xs))" using assms by simp
  have nef: "last_n f xs \<noteq> []" and nes: "last_n s xs \<noteq> []"
    using assms by (auto simp: last_n_def)
  have mf: "py_mean (slice_from (map Fin xs) (- int f)) = Inr (rounded_mean (last_n f xs))"
    unfolding slice_from_last_n[OF assms(2)] last_n_map
    by (rule py_mean_doubles[OF nef list_all_last_n[OF assms(1)]])
  have ms: "py_mean (slice_from (map Fin xs) (- int s)) = Inr (rounded_mean (last_n s xs))"
    unfolding slice_from_last_n[OF s0] last_n_map
    by (rule py_mean_doubles[OF nes list_all_last_n[OF assms(1)]])
  have ne: "xs \<noteq> []" using assms by auto
  have e1: "from_end (map Fin xs) 1 = Fin (last xs)"
    using ne by (simp add: from_end_def last_conv_nth)
  have e3: "from_end (map Fin xs) 3 = Fin (xs ! (length xs - 3))"
    using assms by (simp add: from_end_def)
  have sp: "fdiv_pos (fsub (from_end (map Fin xs) 1) (from_end (map Fin xs) 3)) 2 = slope_of xs"
    by (simp only: e1 e3 slope_of_def)
  show ?thesis
    unfolding compute_signal_def
    by (simp only: g if_False sl if_True mf ms then_do_Inr sp Let_def)
qed

lemma last_gap_increasing:
  assumes "sorted_wrt (<) xs" "list_all is_double xs" "3 \<le> length xs"
  shows "2 * 2 powi (- 1074) \<le> last xs - xs ! (length xs - 3)"
proof -
  define n where "n = length xs"
  have n: "3 \<le> n" using assms(3) by (simp add: n_def)
  have d: "is_double (xs ! i)" if "i < n" for i
    using assms(2) that by (simp add: list_all_length n_def)
  have "xs \<noteq> []" using assms(3) by auto
  then have l: "last xs = xs ! (n - 1)" by (simp add: last_conv_nth n_def)
  have "xs ! (n - 3) < xs ! (n - 2)"
    by (rule sorted_wrt_nth_less[OF assms(1)]) (use n in \<open>simp_all add: n_def[symmetric]\<close>)
  from grid_gap[OF d d this] have 1: "xs ! (n - 3) + 2 powi (- 1074) \<le> xs ! (n - 2)" using n by simp
  have "xs ! (n - 2) < xs ! (n - 1)"
    by (rule sorted_wrt_nth_less[OF assms(1)]) (use n in \<open>simp_all add: n_def[symmetric]\<close>)
  from grid_gap[OF d d this] have 2: "xs ! (n - 2) + 2 powi (- 1074) \<le> xs ! (n - 1)" using n by simp
  from 1 2 show ?thesis unfolding l n_def[symmetric] by linarith
qed

lemma last_gap_decreasing:
  assumes "sorted_wrt (>) xs" "list_all is_double xs" "3 \<le> length xs"
  shows "2 * 2 powi (- 1074) \<le> xs ! (length xs - 3) - last xs"
proof -
  define n where "n = length xs"
  have n: "3 \<le> n" using assms(3) by (simp add: n_def)
  have d: "is_double (xs ! i)" if "i < n" for i
    using assms(2) that by (simp add: list_all_length n_def)
  have "xs \<noteq> []" using assms(3) by auto
  then have l: "last xs = xs ! (n - 1)" by (simp add: last_conv_nth n_def)
  have "xs ! (n - 2) < xs ! (n - 3)"
    by (rule sorted_wrt_nth_less[OF assms(1)]) (use n in \<open>simp_all add: n_def[symmetric]\<close>)
  from grid_gap[OF d d this] have 1: "xs ! (n - 2) + 2 powi (- 1074) \<le> xs ! (n - 3)" using n by simp
  have "xs ! (n - 1) < xs ! (n - 2)"
    by (rule sorted_wrt_nth_less[OF assms(1)]) (use n in \<open>simp_all add: n_def[symmetric]\<close>)
  from grid_gap[OF d d this] have 2: "xs ! (n - 1) + 2 powi (- 1074) \<le> xs ! (n - 2)" using n by simp
  from 1 2 show ?thesis unfolding l n_def[symmetric] by linarith
qed

text \<open>
  C7, as amended. For finite binary64 prices and window lengths with
  \<open>1 \<le> fastLen < slowLen\<close>, \<open>3 \<le> slowLen\<close> and at least \<open>slowLen\<close> prices: when
  the prices are strictly increasing the exact mean of the fast window exceeds that of the
  slow window and the slope is positive, and \<open>compute_signal\<close> returns BUY unless the
  two means round to the same float, in which case it returns HOLD; when they are strictly
  decreasing the slope is negative and it returns SELL, or HOLD when the two means round to
  the same float.
\<close>

theorem monotone_prices_signal:
  assumes "list_all is_double xs" "0 < f" "f < s" "3 \<le> s" "s \<le> length xs"
  shows "(sorted_wrt (<) xs \<longrightarrow>
            mean (last_n s xs) < mean (last_n f xs)
          \<and> compute_signal (map Fin xs) (int f) (int s) =
              Inr (if rounded_mean (last_n f xs) = rounded_mean (last_n s xs)
                   then (HOLD, Neutral (rounded_mean (last_n f xs)) (rounded_mean (last_n s xs))
                                 (slope_of xs))
                   else (BUY, FastAbove (rounded_mean (last_n f xs)) (rounded_mean (last_n s xs))
                                 (slope_of xs)))
          \<and> fgt (slope_of xs) (Fin 0))
       \<and> (sorted_wrt (>) xs \<longrightarrow>
            mean (last_n f xs) < mean (last_n s xs)
          \<and> compute_signal (map Fin xs) (int f) (int s) =
              Inr (if rounded_mean (last_n f xs) = rounded_mean (last_n s xs)
                   then (HOLD, Neutral (rounded_mean (last_n f xs)) (rounded_mean (last_n s xs))
                                 (slope_of xs))
                   else (SELL, FastBelow (rounded_mean (last_n f xs)) (rounded_mean (last_n s xs))
                                 (slope_of xs)))
          \<and> flt (slope_of xs) (Fin 0))"
proof (intro conjI impI)
  assume inc: "sorted_wrt (<) xs"
  show m: "mean (last_n s xs) < mean (last_n f xs)"
    by (rule mean_last_increasing[OF inc assms(2,3,5)])
  have r: "round_to_grid (mean (last_n s xs)) \<le> round_to_grid (mean (last_n f xs))"
    by (rule rtg_mono) (use m in simp)
  have "3 \<le> length xs" using assms by simp
  from last_gap_increasing[OF inc assms(1) this]
  show sp: "fgt (slope_of xs) (Fin 0)" unfolding slope_of_def by (rule slope_pos)
  show "compute_signal (map Fin xs) (int f) (int s) =
      Inr (if rounded_mean (last_n f xs) = rounded_mean (last_n s xs)
           then (HOLD, Neutral (rounded_mean (last_n f xs)) (rounded_mean (last_n s xs)) (slope_of xs))
           else (BUY, FastAbove (rounded_mean (last_n f xs)) (rounded_mean (last_n s xs)) (slope_of xs)))"
    unfolding compute_signal_doubles[OF assms]
    using r sp by (auto simp: rounded_mean_def fgt_def)
next
  assume dec: "sorted_wrt (>) xs"
  show m: "mean (last_n f xs) < mean (last_n s xs)"
    by (rule mean_last_decreasing[OF dec assms(2,3,5)])
  have r: "round_to_grid (mean (last_n f xs)) \<le> round_to_grid (mean (last_n s xs))"
    by (rule rtg_mono) (use m in simp)
  have "3 \<le> length xs" using assms by simp
  from last_gap_decreasing[OF dec assms(1) this]
  show sp: "flt (slope_of xs) (Fin 0)" unfolding slope_of_def by (rule slope_neg)
  have nsp: "\<not> fgt (slope_of xs) (Fin 0)"
    using sp by (cases "slope_of xs") (auto simp: fgt_def)
  show "compute_signal (map Fin xs) (int f) (int s) =
      Inr (if rounded_mean (last_n f xs) = rounded_mean (last_n s xs)
           then (HOLD, Neutral (rounded_mean (last_n f xs)) (rounded_mean (last_n s xs)) (slope_of xs))
           else (SELL, FastBelow (rounded_mean (last_n f xs)) (rounded_mean (last_n s xs)) (slope_of xs)))"
    unfolding compute_signal_doubles[OF assms]
    using r sp nsp by (auto simp: rounded_mean_def fgt_def)
qed

lemma doubles_1234: "list_all is_double [1, 2, 3, 4]"
  by code_simp

lemma means_1234: "rounded_mean [3, 4] = Fin (7 / 2) \<and> rounded_mean [2, 3, 4] = Fin 3
   \<and> rounded_mean [2, 1] = Fin (3 / 2) \<and> rounded_mean [3, 2, 1] = Fin 2"
  by code_simp

lemma doubles_4321: "list_all is_double [4, 3, 2, 1]"
  by code_simp

theorem monotone_prices_signal_witness:
  "list_all is_double [1, 2, 3, 4] \<and> sorted_wrt (<) [1, 2, 3, 4 :: rat]
   \<and> compute_signal (map Fin [1, 2, 3, 4]) 2 3 =
       Inr (BUY, FastAbove (Fin (7 / 2)) (Fin 3) (slope_of [1, 2, 3, 4]))
   \<and> list_all is_double [4, 3, 2, 1] \<and> sorted_wrt (>) [4, 3, 2, 1 :: rat]
   \<and> compute_signal (map Fin [4, 3, 2, 1]) 2 3 =
       Inr (SELL, FastBelow (Fin (3 / 2)) (Fin 2) (slope_of [4, 3, 2, 1]))"
  using monotone_prices_signal[of "[1, 2, 3, 4]" 2 3] monotone_prices_signal[of "[4, 3, 2, 1]" 2 3]
        doubles_1234 doubles_4321 means_1234
  by (simp add: last_n_def)

theorem rounding_tie_counterexample:
  "sorted_wrt (<) [4503599627370497, 4503599627370498, 4503599627370499 :: rat]
   \<and> list_all is_double [4503599627370497, 4503599627370498, 4503599627370499]
   \<and> compute_signal (map Fin [4503599627370497, 4503599627370498, 4503599627370499]) 2 3
       = Inr (HOLD, Neutral (Fin 4503599627370498) (Fin 4503599627370498) (Fin 1))
   \<and> sorted_wrt (>) [4503599627370499, 4503599627370498, 4503599627370497 :: rat]
   \<and> compute_signal (map Fin [4503599627370499, 4503599627370498, 4503599627370497]) 2 3
       = Inr (HOLD, Neutral (Fin 4503599627370498) (Fin 4503599627370498) (Fin (- 1)))
   \<and> compute_signal (map Fin [1, 2, 3]) 0 3 = Inr (HOLD, Neutral (Fin 2) (Fin 2) (Fin 1))
   \<and> flt (Fin 1) (Fin 2) \<and> flt (Fin 2) PosInf
   \<and> compute_signal [Fin 1, Fin 2, PosInf] 1 3 = Inr (HOLD, Neutral PosInf PosInf PosInf)"
  by code_simp

section \<open>The price window\<close>

lemma rtg_int_pos:
  assumes "0 < i" "i \<le> 2 ^ 53"
  shows "round_to_grid (of_int i) = of_int i"
proof -
  define x :: rat where "x = of_int i"
  define e where "e = ilog2 x"
  have x0: "0 < x" "1 \<le> x" using assms by (simp_all add: x_def)
  have xle: "x \<le> 2 powi 53"
  proof -
    have "x \<le> of_int (2 ^ 53)" unfolding x_def using assms(2) by (simp only: of_int_le_iff)
    also have "\<dots> = 2 powi 53" using p2_nat[of 53] by simp
    finally show ?thesis .
  qed
  have e0: "0 \<le> e" unfolding e_def using ilog2_ge_iff[OF x0(1), of 0] x0(2) by simp
  have e53: "e \<le> 53"
  proof (rule ccontr)
    assume "\<not> e \<le> 53"
    then have "54 \<le> ilog2 x" by (simp add: e_def)
    then have "2 powi 54 \<le> x" using ilog2_ge_iff[OF x0(1), of 54] by simp
    moreover have "(2::rat) powi 53 < 2 powi 54" by (rule p2_strict) simp
    ultimately show False using xle by linarith
  qed
  have u: "ulp_of x = 2 powi (e - 52)"
    using e0 x0 by (simp add: ulp_of_def e_def max_def)
  show ?thesis
  proof (cases "e \<le> 52")
    case True
    define k where "k = nat (52 - e)"
    have p: "(2::rat) powi (52 - e) = of_int (2 ^ k)"
      unfolding k_def using True by (intro p2_nat) simp
    have inv: "(2::rat) powi (e - 52) * 2 powi (52 - e) = 1"
      using p2_add[of "e - 52" "52 - e"] by simp
    have "(2::rat) powi (52 - e) = inverse (2 powi (e - 52))"
      using power_int_minus[of "2::rat" "e - 52"] by simp
    then have "x / ulp_of x = x * 2 powi (52 - e)"
      unfolding u by (simp only: divide_inverse)
    also have "\<dots> = of_int (i * 2 ^ k)" unfolding p x_def by simp
    finally have q: "x / ulp_of x = of_int (i * 2 ^ k)" .
    have xn: "x \<noteq> 0" using x0 by simp
    have "round_to_grid x = of_int (round_half_even (x / ulp_of x)) * ulp_of x"
      unfolding round_to_grid_def using xn by (rule if_not_P)
    also have "\<dots> = of_int (i * 2 ^ k) * 2 powi (e - 52)"
      by (subst q, subst rhe_int, subst u) (rule refl)
    finally have "round_to_grid x = of_int (i * 2 ^ k) * 2 powi (e - 52)" .
    also have "\<dots> = x * (2 powi (52 - e) * 2 powi (e - 52))"
      unfolding x_def using p by simp
    also have "\<dots> = x" using inv by (simp add: mult.commute)
    finally show ?thesis unfolding x_def .
  next
    case False
    then have e: "e = 53" using e53 by simp
    have "2 powi 53 \<le> x" using ilog2_ge_iff[OF x0(1), of 53] e by (simp add: e_def)
    then have xe: "x = 2 powi 53" using xle by simp
    have u2: "ulp_of x = 2" using u e by simp
    have q2: "x / ulp_of x = of_int (2 ^ 52)" by (subst u2) (simp add: xe)
    have xn: "x \<noteq> 0" using x0 by simp
    have "round_to_grid x = of_int (round_half_even (x / ulp_of x)) * ulp_of x"
      unfolding round_to_grid_def using xn by (rule if_not_P)
    also have "\<dots> = of_int (2 ^ 52) * 2"
      by (subst q2, subst rhe_int, subst u2) (rule refl)
    finally have "round_to_grid x = of_int (2 ^ 52) * 2" .
    also have "\<dots> = x" unfolding xe by simp
    finally show ?thesis unfolding x_def .
  qed
qed

lemma rtg_int:
  assumes "\<bar>i\<bar> \<le> 2 ^ 53"
  shows "round_to_grid (of_int i) = of_int i"
proof -
  consider "0 < i" | "i = 0" | "i < 0" by linarith
  then show ?thesis
  proof cases
    case 1
    then show ?thesis using rtg_int_pos[of i] assms by simp
  next
    case 2
    then show ?thesis by simp
  next
    case 3
    then have "round_to_grid (of_int (- i)) = of_int (- i)"
      using rtg_int_pos[of "- i"] assms by simp
    then show ?thesis using rtg_neg[of "of_int i"] by simp
  qed
qed

lemma fl_int:
  assumes "\<bar>i\<bar> \<le> 2 ^ 53"
  shows "fl (of_int i) = Fin (of_int i)"
proof -
  have a: "\<bar>(of_int i :: rat)\<bar> \<le> of_int (2 ^ 53)"
    using assms by (simp only: of_int_abs[symmetric] of_int_le_iff)
  have "of_int (2 ^ 53) = (2::rat) powi 53" using p2_nat[of 53] by simp
  moreover have "(2::rat) powi 53 < 2 powi 1024" by (rule p2_strict) simp
  ultimately have "\<bar>(of_int i :: rat)\<bar> < 2 powi 1024" using a by linarith
  then show ?thesis unfolding fl_alt rtg_int[OF assms] by auto
qed

lemma float_of_int_exact:
  "\<bar>i\<bar> \<le> 2 ^ 53 \<Longrightarrow> float_of_int i = Inr (Fin (of_int i))"
  by (simp add: float_of_int_def fl_int)

lemma fl_huge:
  assumes "2 powi 1024 \<le> x"
  shows "fl x = PosInf"
proof -
  have x0: "0 < x" using assms p2_pos[of 1024] by linarith
  have e: "1024 \<le> ilog2 x" using ilog2_ge_iff[OF x0, of 1024] assms by simp
  then have "2 powi (ilog2 x) \<le> round_to_grid x" using rtg_lower[OF x0] by simp
  moreover have "(2::rat) powi 1024 \<le> 2 powi (ilog2 x)" using e by (rule p2_mono)
  ultimately show ?thesis unfolding fl_alt by simp
qed

lemma float_of_int_overflow:
  assumes "2 ^ 1024 \<le> \<bar>i\<bar>"
  shows "float_of_int i = Inl OverflowError"
proof -
  have p: "of_int (2 ^ 1024) = (2::rat) powi 1024" using p2_nat[of 1024] by simp
  have a: "(2::rat) powi 1024 \<le> \<bar>of_int i\<bar>"
    unfolding p[symmetric] using assms by (simp only: of_int_abs[symmetric] of_int_le_iff)
  show ?thesis
  proof (cases "0 \<le> i")
    case True
    then have "fl (of_int i) = PosInf" using a by (intro fl_huge) simp
    then show ?thesis by (simp add: float_of_int_def)
  next
    case False
    then have "fl (- of_int i) = PosInf" using a by (intro fl_huge) simp
    then have "fl (of_int i) = NegInf"
      using fl_neg[of "of_int i"] by (cases "fl (of_int i)") simp_all
    then show ?thesis by (simp add: float_of_int_def)
  qed
qed

lemma recorded_numbered:
  "recorded (JStr s) (map (\<lambda>i. (JStr s, JFloat (Fin (of_nat i)), JInt (int i), 0)) ns)
     = map (\<lambda>i. (JInt (int i), Fin (of_nat i))) ns"
  by (induction ns) simp_all

lemma fl_minus_1000: "fl (- 1000) = Fin (- 1000)"
  by code_simp

lemma float_of_int_2_1024: "float_of_int (2 ^ 1024) = Inl OverflowError"
  by (rule float_of_int_overflow) simp

text \<open>
  C2, as amended. Whatever sequence of \<open>add_tick\<close> calls is run on a fresh store, the
  history of every symbol holds at most \<open>MAX_POINTS\<close> = 500 ticks, and it is exactly the
  last 500, in call order, of the ticks recorded for that symbol: an append at capacity
  drops the oldest. A later \<open>get_prices_since\<close> whose window converts to a float, as
  every window of magnitude up to \<open>2 ^ 53\<close> does, and whose cutoff reaches every stored
  timestamp returns the prices of exactly those most recent ticks. A window of magnitude
  \<open>2 ^ 1024\<close> or more makes \<open>get_prices_since\<close> raise \<open>OverflowError\<close>.
\<close>

theorem add_tick_capacity:
  "length (history (add_ticks MarketData calls) symbol) \<le> MAX_POINTS \<and> MAX_POINTS = 500
   \<and> history (add_ticks MarketData calls) symbol = last_n MAX_POINTS (recorded symbol calls)
   \<and> (float_of_int w = Inr wd
        \<and> numeric_ts (history (add_ticks MarketData calls) (JStr s))
        \<and> since (fsub (Fin now) wd) (history (add_ticks MarketData calls) (JStr s))
            = history (add_ticks MarketData calls) (JStr s)
      \<longrightarrow> fst (get_prices_since (add_ticks MarketData calls) (JStr s) w now)
            = Inr (map snd (last_n MAX_POINTS (recorded (JStr s) calls))))
   \<and> (\<bar>w\<bar> \<le> 2 ^ 53 \<longrightarrow> float_of_int w = Inr (Fin (of_int w)))
   \<and> (2 ^ 1024 \<le> \<bar>w\<bar>
      \<longrightarrow> fst (get_prices_since (add_ticks MarketData calls) (JStr s) w now) = Inl OverflowError)"
proof -
  have h: "\<And>sym. history (add_ticks MarketData calls) sym
              = last_n MAX_POINTS (recorded sym calls)"
    using history_add_ticks[of MarketData _ calls] by (simp add: history_MarketData)
  have 1: "length (history (add_ticks MarketData calls) symbol) \<le> MAX_POINTS"
    by (simp add: h last_n_length)
  have 2: "float_of_int w = Inr wd
        \<and> numeric_ts (history (add_ticks MarketData calls) (JStr s))
        \<and> since (fsub (Fin now) wd) (history (add_ticks MarketData calls) (JStr s))
            = history (add_ticks MarketData calls) (JStr s)
      \<longrightarrow> fst (get_prices_since (add_ticks MarketData calls) (JStr s) w now)
            = Inr (map snd (last_n MAX_POINTS (recorded (JStr s) calls)))"
    using prices_from_numeric[of "history (add_ticks MarketData calls) (JStr s)"
                                 "fsub (Fin now) wd"]
    by (auto simp: h get_prices_since_str)
  have 3: "2 ^ 1024 \<le> \<bar>w\<bar>
      \<longrightarrow> fst (get_prices_since (add_ticks MarketData calls) (JStr s) w now) = Inl OverflowError"
    by (simp add: get_prices_since_str float_of_int_overflow)
  show ?thesis using 1 2 3 h[of symbol] float_of_int_exact[of w]
    by (simp add: MAX_POINTS_def)
qed

theorem add_tick_capacity_witness:
  "history (add_ticks MarketData
       (map (\<lambda>i. (JStr ''R_100'', JFloat (Fin (of_nat i)), JInt (int i), 0)) [0..<501]))
     (JStr ''R_100'')
     = map (\<lambda>i. (JInt (int i), Fin (of_nat i))) [1..<501]
   \<and> length (history (add_ticks MarketData
       (map (\<lambda>i. (JStr ''R_100'', JFloat (Fin (of_nat i)), JInt (int i), 0)) [0..<501]))
     (JStr ''R_100'')) = 500
   \<and> float_of_int 1000 = Inr (Fin 1000)
   \<and> fst (get_prices_since (add_ticks MarketData
       (map (\<lambda>i. (JStr ''R_100'', JFloat (Fin (of_nat i)), JInt (int i), 0)) [0..<501]))
     (JStr ''R_100'') 1000 0)
     = Inr (map (\<lambda>i. Fin (of_nat i)) [1..<501])
   \<and> fst (get_prices_since (add_ticks MarketData
       (map (\<lambda>i. (JStr ''R_100'', JFloat (Fin (of_nat i)), JInt (int i), 0)) [0..<501]))
     (JStr ''R_100'') (2 ^ 1024) 0)
     = Inl OverflowError"
proof -
  let ?calls = "map (\<lambda>i. (JStr ''R_100'', JFloat (Fin (of_nat i)), JInt (int i), 0::rat)) [0..<501]"
  let ?h = "\<lambda>i::nat. (JInt (int i), Fin (of_nat i))"
  let ?H = "history (add_ticks MarketData ?calls) (JStr ''R_100'')"
  note t = add_tick_capacity[of ?calls "JStr ''R_100''" 1000 "Fin 1000" "''R_100''" 0]
  note u = add_tick_capacity[of ?calls "JStr ''R_100''" "2 ^ 1024" "Fin 0" "''R_100''" 0]
  have ln: "last_n MAX_POINTS (map ?h [0..<501]) = map ?h [1..<501]"
    by (simp add: last_n_def MAX_POINTS_def drop_map del: upt_rec_numeral)
  have 1: "?H = map ?h [1..<501]"
    using t[THEN conjunct2, THEN conjunct2, THEN conjunct1]
    by (simp only: recorded_numbered ln)
  have 2: "length ?H = 500" unfolding 1 by simp
  have 3: "float_of_int 1000 = Inr (Fin 1000)"
    using t[THEN conjunct2, THEN conjunct2, THEN conjunct2, THEN conjunct2, THEN conjunct1]
    by simp
  have num: "numeric_ts ?H" unfolding 1 by (simp add: numeric_ts_def list_all_iff)
  have cut: "fsub (Fin 0) (Fin 1000) = Fin (- 1000)" by (simp add: fsub_def fl_minus_1000)
  have sn: "since (fsub (Fin 0) (Fin 1000)) ?H = ?H"
    unfolding 1 cut since_def by (rule filter_True) auto
  have "fst (get_prices_since (add_ticks MarketData ?calls) (JStr ''R_100'') 1000 0)
          = Inr (map snd (last_n MAX_POINTS (recorded (JStr ''R_100'') ?calls)))"
    using t[THEN conjunct2, THEN conjunct2, THEN conjunct2, THEN conjunct1] 3 num sn by blast
  then have 4: "fst (get_prices_since (add_ticks MarketData ?calls) (JStr ''R_100'') 1000 0)
          = Inr (map (\<lambda>i. Fin (of_nat i)) [1..<501])"
    by (simp only: recorded_numbered ln) (simp add: comp_def del: upt_rec_numeral)
  have 5: "fst (get_prices_since (add_ticks MarketData ?calls) (JStr ''R_100'') (2 ^ 1024) 0)
          = Inl OverflowError"
    using u[THEN conjunct2, THEN conjunct2, THEN conjunct2, THEN conjunct2, THEN conjunct2]
    by simp
  show ?thesis using 1 2 3 4 5 by blast
qed

lemma get_prices_since_2_1024:
  "fst (get_prices_since M (JStr s) (2 ^ 1024) now) = Inl OverflowError"
  by (simp only: get_prices_since_str float_of_int_2_1024 sum.case fst_conv)

theorem capacity_window_overflow_counterexample:
  "history (add_ticks MarketData [(JStr ''R_100'', JFloat (Fin 1), JInt 10, 0)]) (JStr ''R_100'')
     = [(JInt 10, Fin 1)]
   \<and> fst (get_prices_since (add_ticks MarketData [(JStr ''R_100'', JFloat (Fin 1), JInt 10, 0)])
            (JStr ''R_100'') (2 ^ 1024) 0) = Inl OverflowError"
proof (rule conjI)
  show "history (add_ticks MarketData [(JStr ''R_100'', JFloat (Fin 1), JInt 10, 0)])
          (JStr ''R_100'') = [(JInt 10, Fin 1)]"
    by (simp add: history_def add_tick_def ensure_symbol_def MarketData_def deque_append_def
                  MAX_POINTS_def)
  show "fst (get_prices_since (add_ticks MarketData [(JStr ''R_100'', JFloat (Fin 1), JInt 10, 0)])
            (JStr ''R_100'') (2 ^ 1024) 0) = Inl OverflowError"
    by (rule get_prices_since_2_1024)
qed

lemma fl_50: "fl 50 = Fin 50"
  by code_simp

lemma fl_tenth_minus_1:
  "fl (3602879701896397 / 36028797018963968 - 1) = Fin (- (8106479329266893 / 9007199254740992))"
  by code_simp

lemma fsub_tenth_1:
  "fsub (Fin (3602879701896397 / 36028797018963968)) (Fin 1)
     = Fin (- (8106479329266893 / 9007199254740992))"
  unfolding fsub_def fneg.simps fadd.simps using fl_tenth_minus_1 by simp

text \<open>
  C6, as amended. For a string symbol and a history whose timestamps are numbers,
  \<open>get_prices_since\<close> converts the window to a float, exactly when its magnitude is at
  most \<open>2 ^ 53\<close> and raising \<open>OverflowError\<close> when it is \<open>2 ^ 1024\<close> or more, and
  then returns the prices of exactly the stored ticks whose timestamp is at least the float
  difference of \<open>now\<close> and the window (the exact difference rounded to binary64), in the
  order of the history. For a symbol without entry and a window that converts the result
  is the empty list, not an exception.
\<close>

theorem get_prices_since_window:
  assumes "numeric_ts (history M (JStr s))"
  shows "fst (get_prices_since M (JStr s) w now) =
           (case float_of_int w of
              Inl e \<Rightarrow> Inl e
            | Inr wd \<Rightarrow> Inr (map snd (since (fsub (Fin now) wd) (history M (JStr s)))))
         \<and> (M (JStr s) = None \<and> float_of_int w = Inr wd
              \<longrightarrow> fst (get_prices_since M (JStr s) w now) = Inr [])
         \<and> (\<bar>w\<bar> \<le> 2 ^ 53 \<longrightarrow> float_of_int w = Inr (Fin (of_int w)))
         \<and> (2 ^ 1024 \<le> \<bar>w\<bar> \<longrightarrow> float_of_int w = Inl OverflowError)"
proof -
  have 1: "fst (get_prices_since M (JStr s) w now) =
           (case float_of_int w of
              Inl e \<Rightarrow> Inl e
            | Inr wd \<Rightarrow> Inr (map snd (since (fsub (Fin now) wd) (history M (JStr s)))))"
    by (cases "float_of_int w") (simp_all add: get_prices_since_str prices_from_numeric[OF assms])
  have 2: "M (JStr s) = None \<and> float_of_int w = Inr wd
              \<longrightarrow> fst (get_prices_since M (JStr s) w now) = Inr []"
    by (simp add: get_prices_since_str history_def)
  show ?thesis using 1 2 float_of_int_exact[of w] float_of_int_overflow[of w] by blast
qed

theorem get_prices_since_window_witness:
  "numeric_ts (history (MarketData(JStr ''R_100'' \<mapsto>
       [(JInt 10, Fin 1), (JInt 50, Fin 2), (JInt 200, Fin 3), (JFloat (Fin 60), Fin 4)]))
       (JStr ''R_100''))
   \<and> fst (get_prices_since (MarketData(JStr ''R_100'' \<mapsto>
       [(JInt 10, Fin 1), (JInt 50, Fin 2), (JInt 200, Fin 3), (JFloat (Fin 60), Fin 4)]))
       (JStr ''R_100'') 100 150)
       = Inr [Fin 2, Fin 3, Fin 4]
   \<and> fst (get_prices_since (MarketData(JStr ''R_100'' \<mapsto>
       [(JFloat (Fin (- (8106479329266893 / 9007199254740992))), Fin 1),
        (JFloat (Fin (- (8106479329266894 / 9007199254740992))), Fin 2)]))
       (JStr ''R_100'') 1 (3602879701896397 / 36028797018963968))
       = Inr [Fin 1]
   \<and> fst (get_prices_since MarketData (JStr ''R_100'') 100 150) = Inr []
   \<and> fst (get_prices_since MarketData (JStr ''R_100'') (2 ^ 1024) 150) = Inl OverflowError"
proof -
  let ?A = "MarketData(JStr ''R_100'' \<mapsto>
       [(JInt 10, Fin 1), (JInt 50, Fin 2), (JInt 200, Fin 3), (JFloat (Fin 60), Fin 4)])"
  let ?B = "MarketData(JStr ''R_100'' \<mapsto>
       [(JFloat (Fin (- (8106479329266893 / 9007199254740992))), Fin 1),
        (JFloat (Fin (- (8106479329266894 / 9007199254740992))), Fin 2)])"
  have nA: "numeric_ts (history ?A (JStr ''R_100''))" by (simp add: history_def numeric_ts_def)
  have nB: "numeric_ts (history ?B (JStr ''R_100''))" by (simp add: history_def numeric_ts_def)
  have nM: "numeric_ts (history MarketData (JStr ''R_100''))"
    by (simp add: history_MarketData numeric_ts_def)
  note a = get_prices_since_window[OF nA, of 100 150 "Fin 100"]
  note b = get_prices_since_window[OF nB, of 1 "3602879701896397 / 36028797018963968" "Fin 1"]
  note c = get_prices_since_window[OF nM, of 100 150 "Fin 100"]
  note d = get_prices_since_window[OF nM, of "2 ^ 1024" 150 "Fin 0"]
  have f100: "float_of_int 100 = Inr (Fin 100)"
    using a[THEN conjunct2, THEN conjunct2, THEN conjunct1] by simp
  have f1: "float_of_int 1 = Inr (Fin 1)"
    using b[THEN conjunct2, THEN conjunct2, THEN conjunct1] by simp
  have 2: "fst (get_prices_since ?A (JStr ''R_100'') 100 150) = Inr [Fin 2, Fin 3, Fin 4]"
    using a[THEN conjunct1]
    by (simp add: f100 fsub_def fl_50 history_def since_def)
  note cutB = fsub_tenth_1
  have 3: "fst (get_prices_since ?B (JStr ''R_100'') 1 (3602879701896397 / 36028797018963968))
             = Inr [Fin 1]"
    using b[THEN conjunct1] unfolding f1 sum.case cutB
    by (simp add: history_def since_def)
  have 4: "fst (get_prices_since MarketData (JStr ''R_100'') 100 150) = Inr []"
    using c[THEN conjunct2, THEN conjunct1] f100 by (simp add: MarketData_def)
  have 5: "fst (get_prices_since MarketData (JStr ''R_100'') (2 ^ 1024) 150) = Inl OverflowError"
    using d[THEN conjunct1] d[THEN conjunct2, THEN conjunct2, THEN conjunct2] by simp
  show ?thesis using nA 2 3 4 5 by blast
qed

theorem window_cutoff_counterexample:
  "MarketData (JStr ''R_100'') = None
   \<and> fst (get_prices_since MarketData (JStr ''R_100'') (2 ^ 1024) 0) = Inl OverflowError
   \<and> fst (get_prices_since (MarketData(JStr ''R_100'' \<mapsto>
             [(JFloat (Fin (- (8106479329266893 / 9007199254740992))), Fin 1)]))
          (JStr ''R_100'') 1 (3602879701896397 / 36028797018963968)) = Inr [Fin 1]
   \<and> - (8106479329266893 / 9007199254740992) < 3602879701896397 / 36028797018963968 - (1::rat)"
proof (intro conjI)
  show "MarketData (JStr ''R_100'') = None" by (simp add: MarketData_def)
  show "fst (get_prices_since MarketData (JStr ''R_100'') (2 ^ 1024) 0) = Inl OverflowError"
    by (rule get_prices_since_2_1024)
  have f1: "float_of_int 1 = Inr (Fin 1)" using float_of_int_exact[of 1] by simp
  show "fst (get_prices_since (MarketData(JStr ''R_100'' \<mapsto>
             [(JFloat (Fin (- (8106479329266893 / 9007199254740992))), Fin 1)]))
          (JStr ''R_100'') 1 (3602879701896397 / 36028797018963968)) = Inr [Fin 1]"
    unfolding get_prices_since_str f1 sum.case fsub_tenth_1 by (simp add: history_def)
  show "- (8106479329266893 / 9007199254740992) < 3602879701896397 / 36028797018963968 - (1::rat)"
    by simp
qed

end
